(* ===== verification/Prelude.thy ===== *)
theory Prelude
  imports Main "HOL-Library.Word" "HOL-Library.Code_Target_Nat"
begin

text \<open>
  Shared vocabulary of the development.  Python's \<open>str\<close> is a sequence of code points,
  so text is a list of naturals (\<open>ustr\<close>); the file system and the output file hold
  bytes (\<open>8 word\<close>).  The lemmas below are the arithmetic facts the UTF-8 codec and
  the file-system model share: byte values read through \<open>unat\<close>, and the split of a
  number into base-64 digits that UTF-8 continuation bytes carry.
\<close>

type_synonym byte = "8 word"
type_synonym bytes = "byte list"
type_synonym ustr = "nat list"

text \<open>ASCII literals of the source, as code points and as bytes.\<close>

definition asc :: "string \<Rightarrow> ustr" where
  "asc s = map of_char s"

definition ascb :: "string \<Rightarrow> bytes" where
  "ascb s = map of_char s"

text \<open>The exceptions of the Python runtime the program can meet.\<close>

datatype py_error =
    FileNotFoundError | IsADirectoryError | NotADirectoryError | PermissionError
  | UnicodeDecodeError | UnicodeEncodeError

named_theorems codec_simps "evaluation rules of the UTF-8 codec"

lemma unat_byte_lt [simp]: "unat (b :: byte) < 256"
  using unsigned_less [of b] by simp

lemma unat_of_nat_byte [simp]: "x < 256 \<Longrightarrow> unat (of_nat x :: byte) = x"
  by (simp add: unat_of_nat)

lemma digit_split: "q < (k::nat) \<Longrightarrow> c = p * k + q \<Longrightarrow> c div k = p \<and> c mod k = q"
  by simp

lemma mod_div_parts:
  "(c::nat) = c div 64 * 64 + c mod 64"
  "c div 64 = c div 4096 * 64 + c div 64 mod 64"
  "c div 4096 = c div 262144 * 64 + c div 4096 mod 64"
proof -
  show "c = c div 64 * 64 + c mod 64" by simp
  have "c div 4096 = c div 64 div 64" by (simp add: div_mult2_eq [symmetric])
  then show "c div 64 = c div 4096 * 64 + c div 64 mod 64" by simp
  have "c div 262144 = c div 4096 div 64" by (simp add: div_mult2_eq [symmetric])
  then show "c div 4096 = c div 262144 * 64 + c div 4096 mod 64" by simp
qed

lemma asc_append [simp]: "asc (s @ t) = asc s @ asc t"
  by (simp add: asc_def)

lemma length_asc [simp]: "length (asc s) = length s"
  by (simp add: asc_def)

lemma asc_ascii: "c \<in> set (asc s) \<Longrightarrow> c < 256"
  by (auto simp: asc_def)

text \<open>
  A deterministic step relation reaches at most one state from which no step is possible.
\<close>

lemma rtranclp_det_final:
  assumes det: "\<And>a b c. R a b \<Longrightarrow> R a c \<Longrightarrow> b = c"
    and "R\<^sup>*\<^sup>* a q" and "R\<^sup>*\<^sup>* a q'" and "\<And>x. \<not> R q x" and "\<And>x. \<not> R q' x"
  shows "q = q'"
  using assms(2,3)
proof (induction rule: converse_rtranclp_induct)
  case base
  then show ?case using assms(4) by (auto elim: converse_rtranclpE)
next
  case (step a y)
  from step.prems show ?case
  proof (cases rule: converse_rtranclpE)
    case base
    with step.hyps(1) assms(5) show ?thesis by blast
  next
    case (step y')
    with det [OF \<open>R a y\<close>] have "R\<^sup>*\<^sup>* y q'" by blast
    then show ?thesis by (rule step.IH)
  qed
qed

end
