(* ===== verification/PyPath.thy ===== *)
theory PyPath
  imports Prelude
begin

text \<open>
  The string operations line 36 and lines 41--42 of \<open>src/ingest.py\<close> apply to a file
  name: \<open>os.path.splitext\<close> (CPython \<open>genericpath._splitext\<close> with \<open>sep = '/'\<close>,
  \<open>extsep = '.'\<close>), \<open>str.lower\<close>, and \<open>os.path.relpath(os.path.join(root, file), '.')\<close>.
  \<open>str.rfind\<close> returns \<open>-1\<close> when the character is absent, so indices are \<open>int\<close>.
  The leading-dot loop of \<open>_splitext\<close> is a \<^theory_text>\<open>function\<close> over the index
  with the measure \<open>dotIndex - filenameIndex\<close>; the slice \<open>p[i:i+1]\<close> is
  \<open>take 1 (drop i p)\<close>, which is what Python's slicing gives at any index.
  \<open>str.lower\<close> is modelled on the code points that matter for the comparison with the
  program's ASCII extensions: \<open>A\<close>..\<open>Z\<close> map to \<open>a\<close>..\<open>z\<close> and U+212A KELVIN SIGN
  maps to \<open>k\<close>; every other code point is kept.  Python maps some other code points to
  other non-ASCII text (U+0130 to \<open>i\<close> followed by U+0307), which never equals an
  ASCII extension either way, and U+212A is the only non-ASCII code point whose
  lowercase is ASCII; the one context-dependent rule of \<open>str.lower\<close> (a final capital
  sigma becomes U+03C2) yields a non-ASCII letter either way.  So membership of the
  lowercased extension in the extension set is the same, though \<open>py_lower\<close> is not
  \<open>str.lower\<close> on other text.
\<close>

definition dot :: nat where "dot = 46"
definition slash :: nat where "slash = 47"

primrec rfind :: "nat \<Rightarrow> ustr \<Rightarrow> int" where
  "rfind x [] = -1"
| "rfind x (y # ys) = (let r = rfind x ys in if 0 \<le> r then r + 1 else if y = x then 0 else -1)"

function has_non_dot :: "ustr \<Rightarrow> nat \<Rightarrow> nat \<Rightarrow> bool" where
  "has_non_dot p i d =
    (if i < d then (if take 1 (drop i p) \<noteq> [dot] then True else has_non_dot p (Suc i) d)
     else False)"
  by pat_completeness auto
termination
  by (relation "measure (\<lambda>(p, i, d). d - i)") auto

definition splitext :: "ustr \<Rightarrow> ustr \<times> ustr" where
  "splitext p =
    (let sepIndex = rfind slash p; dotIndex = rfind dot p in
     if sepIndex < dotIndex \<and> has_non_dot p (nat (sepIndex + 1)) (nat dotIndex)
     then (take (nat dotIndex) p, drop (nat dotIndex) p)
     else (p, []))"

definition lower_cp :: "nat \<Rightarrow> nat" where
  "lower_cp c = (if 65 \<le> c \<and> c \<le> 90 then c + 32 else if c = 0x212A then 107 else c)"

definition py_lower :: "ustr \<Rightarrow> ustr" where
  "py_lower s = map lower_cp s"

fun rel_path :: "ustr list \<Rightarrow> ustr" where
  "rel_path [] = []"
| "rel_path [c] = c"
| "rel_path (c # cs) = c @ slash # rel_path cs"

definition ext_ref :: "ustr \<Rightarrow> ustr" where
  "ext_ref p =
    (if dot \<in> set (dropWhile (\<lambda>c. c = dot) p)
     then dot # rev (takeWhile (\<lambda>c. c \<noteq> dot) (rev p)) else [])"

text \<open>
  \<open>split_path\<close> is \<open>str.split('/')\<close>, used to state that \<open>rel_path\<close> loses nothing.
\<close>

fun split_path :: "ustr \<Rightarrow> ustr list" where
  "split_path [] = [[]]"
| "split_path (c # cs) = (let r = split_path cs in if c = slash then [] # r else (c # hd r) # tl r)"

text \<open>
  \<open>dec\<close> is \<open>str\<close> on a non-negative \<open>int\<close> (the \<open>{count}\<close> of line 58): its decimal
  digits, most significant first.
\<close>

fun dec :: "nat \<Rightarrow> ustr" where
  "dec n = (if n < 10 then [48 + n] else dec (n div 10) @ [48 + n mod 10])"

lemma rfind_notin: "x \<notin> set p \<Longrightarrow> rfind x p = -1"
  by (induction p) auto

lemma rfind_ge: "-1 \<le> rfind x p"
  by (induction p) (auto simp: Let_def)

lemma rfind_last:
  "x \<in> set p \<Longrightarrow> \<exists>a b. p = a @ x # b \<and> x \<notin> set b \<and> rfind x p = int (length a)"
proof (induction p)
  case Nil
  then show ?case by simp
next
  case (Cons y ys)
  show ?case
  proof (cases "x \<in> set ys")
    case True
    with Cons.IH obtain a b where "ys = a @ x # b" "x \<notin> set b" "rfind x ys = int (length a)"
      by blast
    then show ?thesis by (intro exI [of _ "y # a"] exI [of _ b]) (simp add: Let_def)
  next
    case False
    with Cons.prems have "y = x" by simp
    with False show ?thesis by (intro exI [of _ "[]"] exI [of _ ys]) (simp add: rfind_notin)
  qed
qed

declare has_non_dot.simps [simp del]

lemma has_non_dot_iff:
  "d \<le> length p \<Longrightarrow> has_non_dot p i d \<longleftrightarrow> (\<exists>j. i \<le> j \<and> j < d \<and> p ! j \<noteq> dot)"
proof (induction p i d rule: has_non_dot.induct)
  case (1 p i d)
  show ?case
  proof (cases "i < d")
    case True
    then have t: "take 1 (drop i p) = [p ! i]"
      using "1.prems" by (simp add: take_Suc_conv_app_nth)
    show ?thesis
    proof (cases "p ! i = dot")
      case True
      with \<open>i < d\<close> t have "has_non_dot p i d = has_non_dot p (Suc i) d"
        by (simp add: has_non_dot.simps [of p i d])
      also have "\<dots> = (\<exists>j. Suc i \<le> j \<and> j < d \<and> p ! j \<noteq> dot)"
        using "1.IH" \<open>i < d\<close> t True "1.prems" by simp
      also have "\<dots> = (\<exists>j. i \<le> j \<and> j < d \<and> p ! j \<noteq> dot)"
        using True by (metis Suc_leD Suc_leI le_neq_implies_less)
      finally show ?thesis .
    next
      case False
      with \<open>i < d\<close> t show ?thesis by (auto simp: has_non_dot.simps [of p i d])
    qed
  next
    case False
    then show ?thesis by (auto simp: has_non_dot.simps [of p i d])
  qed
qed

lemma splitext_append: "fst (splitext p) @ snd (splitext p) = p"
  by (simp add: splitext_def Let_def)

text \<open>
  C14.  \<open>os.path.splitext\<close> on a base name: the extension is the final dot and what
  follows it, except when the name has no dot after its leading dots, in which case it is
  empty (\<open>ext_ref\<close> states this directly on the list).
\<close>

lemma splitext_basename:
  assumes "slash \<notin> set p"
  shows "snd (splitext p) = ext_ref p"
proof (cases "dot \<in> set p")
  case False
  then have "dot \<notin> set (dropWhile (\<lambda>c. c = dot) p)"
    using set_dropWhileD by fastforce
  with False assms show ?thesis
    by (simp add: splitext_def ext_ref_def rfind_notin)
next
  case True
  then obtain a b where p: "p = a @ dot # b" and b: "dot \<notin> set b"
    and r: "rfind dot p = int (length a)"
    using rfind_last by blast
  have sep: "rfind slash p = -1" using assms by (rule rfind_notin)
  have "takeWhile (\<lambda>c. c \<noteq> dot) (rev b @ dot # rev a) = rev b"
    by (rule trans [OF takeWhile_append2]) (use b in auto)
  then have tw: "rev (takeWhile (\<lambda>c. c \<noteq> dot) (rev p)) = b"
    by (simp add: p)
  have hn: "has_non_dot p 0 (length a) \<longleftrightarrow> (\<exists>c \<in> set a. c \<noteq> dot)"
    by (simp add: has_non_dot_iff p nth_append) (metis in_set_conv_nth)
  show ?thesis
  proof (cases "\<exists>c \<in> set a. c \<noteq> dot")
    case True
    then have "dropWhile (\<lambda>c. c = dot) p = dropWhile (\<lambda>c. c = dot) a @ dot # b"
      by (auto simp: p)
    moreover have "drop (length a) p = dot # b" by (simp add: p)
    ultimately show ?thesis using True hn tw
      by (simp add: splitext_def ext_ref_def Let_def r sep)
  next
    case False
    then have "dropWhile (\<lambda>c. c = dot) p = dropWhile (\<lambda>c. c = dot) b"
      by (simp add: p)
    then have "dot \<notin> set (dropWhile (\<lambda>c. c = dot) p)"
      using b set_dropWhileD by fastforce
    with False hn show ?thesis
      by (simp add: splitext_def ext_ref_def Let_def r sep)
  qed
qed

subsection \<open>Dotfiles\<close>

lemma rfind_append_notin: "x \<notin> set b \<Longrightarrow> rfind x (a @ x # b) = int (length a)"
  by (induction a) (simp_all add: Let_def rfind_notin)

lemma splitext_leading_dots:
  assumes "dot \<notin> set s"
  shows "snd (splitext (replicate (Suc k) dot @ s)) = []"
proof -
  let ?p = "replicate (Suc k) dot @ s"
  have p: "?p = replicate k dot @ dot # s" by (simp add: replicate_app_Cons_same)
  have r: "rfind dot ?p = int k" unfolding p using assms by (simp add: rfind_append_notin)
  have "\<not> has_non_dot ?p i k" for i
    unfolding p by (simp add: has_non_dot_iff nth_append)
  with r show ?thesis by (simp add: splitext_def Let_def)
qed

subsection \<open>Relative paths can be split again\<close>

lemma split_path_nonempty [simp]: "split_path s \<noteq> []"
  by (induction s) (simp_all add: Let_def)

lemma split_path_append:
  "slash \<notin> set a \<Longrightarrow> split_path (a @ b) = (a @ hd (split_path b)) # tl (split_path b)"
  by (induction a) (simp_all add: Let_def)

lemma split_rel_path:
  "cs \<noteq> [] \<Longrightarrow> (\<forall>c \<in> set cs. slash \<notin> set c) \<Longrightarrow> split_path (rel_path cs) = cs"
proof (induction cs rule: rel_path.induct)
  case (2 c)
  then show ?case using split_path_append [of c "[]"] by simp
next
  case (3 c d cs)
  then show ?case using split_path_append [of c "slash # rel_path (d # cs)"] by (simp add: Let_def)
qed simp


end
