(* ===== verification/Utf8.thy ===== *)
theory Utf8
  imports Prelude
begin

text \<open>
  The UTF-8 codec the program relies on without naming it: \<open>open(path, 'r',
  encoding='utf-8').read()\<close> decodes strictly (CPython \<open>Objects/stringlib/codecs.h\<close>,
  \<open>utf8_decode\<close>), \<open>outfile.write\<close> on a file opened with \<open>encoding='utf-8'\<close>
  encodes strictly (\<open>utf8_encoder\<close>; a lone surrogate raises
  \<open>UnicodeEncodeError\<close>), and the names \<open>os.walk\<close> returns are the bytes of the
  directory decoded by \<open>os.fsdecode\<close> (UTF-8 with the \<open>surrogateescape\<close> handler,
  the file-system encoding of a UTF-8 locale), turned back into bytes by
  \<open>os.fsencode\<close> when \<open>open\<close> is called.
  The decoder follows CPython's structure: the lead byte selects the length, the second
  byte has the narrowed ranges of Unicode Table 3-7 (\<open>second_ok\<close>: no overlong forms,
  no surrogates, nothing above U+10FFFF), and the code point is computed as CPython
  does, by shifting the bytes together and subtracting the marker bits.
  The encoder writes \<open>0xC0 | (c >> 6)\<close> as \<open>0xC0 + c div 64\<close>: the two summands
  have no bit in common.
  \<open>surrogateescape\<close> replaces each byte of an undecodable sequence by U+DC80..U+DCFF;
  escaping one byte at a time gives the same text as CPython's escaping of a maximal
  invalid subsequence, because every byte after the lead byte of such a subsequence is a
  continuation byte, which is itself an invalid start.
  The main results: the strict codec is a bijection between valid UTF-8 byte strings and
  texts of Unicode scalar values (decoding, then encoding, gives the bytes back, and
  encoding, then decoding, gives the text back), and \<open>os.fsencode\<close> inverts
  \<open>os.fsdecode\<close> on every byte string, which is what lets \<open>open\<close> find the file
  whose name the walk returned.
\<close>

definition is_cont :: "nat \<Rightarrow> bool" where
  "is_cont y \<longleftrightarrow> 0x80 \<le> y \<and> y < 0xC0"

definition is_surrogate :: "nat \<Rightarrow> bool" where
  "is_surrogate c \<longleftrightarrow> 0xD800 \<le> c \<and> c < 0xE000"

definition scalar :: "nat \<Rightarrow> bool" where
  "scalar c \<longleftrightarrow> c < 0x110000 \<and> \<not> is_surrogate c"

definition utf8_encode_cp :: "nat \<Rightarrow> bytes option" where
  "utf8_encode_cp c =
    (if c < 0x80 then Some [of_nat c]
     else if c < 0x800 then Some [of_nat (0xC0 + c div 64), of_nat (0x80 + c mod 64)]
     else if is_surrogate c then None
     else if c < 0x10000 then
       Some [of_nat (0xE0 + c div 4096), of_nat (0x80 + c div 64 mod 64), of_nat (0x80 + c mod 64)]
     else if c < 0x110000 then
       Some [of_nat (0xF0 + c div 262144), of_nat (0x80 + c div 4096 mod 64),
             of_nat (0x80 + c div 64 mod 64), of_nat (0x80 + c mod 64)]
     else None)"

primrec utf8_encode :: "ustr \<Rightarrow> bytes option" where
  "utf8_encode [] = Some []"
| "utf8_encode (c # cs) =
    (case utf8_encode_cp c of
       None \<Rightarrow> None
     | Some bs \<Rightarrow> map_option ((@) bs) (utf8_encode cs))"

definition second_ok :: "nat \<Rightarrow> nat \<Rightarrow> bool" where
  "second_ok x y =
    (if x = 0xE0 then 0xA0 \<le> y \<and> y < 0xC0
     else if x = 0xED then 0x80 \<le> y \<and> y < 0xA0
     else if x = 0xF0 then 0x90 \<le> y \<and> y < 0xC0
     else if x = 0xF4 then 0x80 \<le> y \<and> y < 0x90
     else is_cont y)"

definition utf8_decode_one :: "byte \<Rightarrow> bytes \<Rightarrow> (nat \<times> nat) option" where
  "utf8_decode_one b bs =
    (let x = unat b in
     if x < 0x80 then Some (x, 0)
     else if x < 0xC2 then None
     else if x < 0xE0 then
       (case bs of
          b1 # _ \<Rightarrow>
            if is_cont (unat b1) then Some (x * 64 + unat b1 - 0x3080, 1) else None
        | _ \<Rightarrow> None)
     else if x < 0xF0 then
       (case bs of
          b1 # b2 # _ \<Rightarrow>
            if second_ok x (unat b1) \<and> is_cont (unat b2)
            then Some (x * 4096 + unat b1 * 64 + unat b2 - 0xE2080, 2) else None
        | _ \<Rightarrow> None)
     else if x < 0xF5 then
       (case bs of
          b1 # b2 # b3 # _ \<Rightarrow>
            if second_ok x (unat b1) \<and> is_cont (unat b2) \<and> is_cont (unat b3)
            then Some (x * 262144 + unat b1 * 4096 + unat b2 * 64 + unat b3 - 0x3C82080, 3)
            else None
        | _ \<Rightarrow> None)
     else None)"

function utf8_decode :: "bytes \<Rightarrow> ustr option" where
  "utf8_decode [] = Some []"
| "utf8_decode (b # bs) =
    (case utf8_decode_one b bs of
       None \<Rightarrow> None
     | Some (c, n) \<Rightarrow> map_option (Cons c) (utf8_decode (drop n bs)))"
  by pat_completeness auto
termination
  by (relation "measure length") auto

function fsdecode :: "bytes \<Rightarrow> ustr" where
  "fsdecode [] = []"
| "fsdecode (b # bs) =
    (case utf8_decode_one b bs of
       None \<Rightarrow> (0xDC00 + unat b) # fsdecode bs
     | Some (c, n) \<Rightarrow> c # fsdecode (drop n bs))"
  by pat_completeness auto
termination
  by (relation "measure length") auto

definition fsencode_cp :: "nat \<Rightarrow> bytes option" where
  "fsencode_cp c =
    (if 0xDC80 \<le> c \<and> c < 0xDD00 then Some [of_nat (c - 0xDC00)] else utf8_encode_cp c)"

primrec fsencode :: "ustr \<Rightarrow> bytes option" where
  "fsencode [] = Some []"
| "fsencode (c # cs) =
    (case fsencode_cp c of
       None \<Rightarrow> None
     | Some bs \<Rightarrow> map_option ((@) bs) (fsencode cs))"

subsection \<open>Arithmetic of one code point\<close>

lemma decode2_arith:
  assumes "0xC2 \<le> (x::nat)" "x < 0xE0" "0x80 \<le> y" "y < 0xC0" "c = x * 64 + y - 0x3080"
  shows "0x80 \<le> c \<and> c < 0x800 \<and> 0xC0 + c div 64 = x \<and> 0x80 + c mod 64 = y"
proof -
  have "c div 64 = x - 0xC0 \<and> c mod 64 = y - 0x80"
    by (rule digit_split) (use assms in linarith)+
  with assms show ?thesis by linarith
qed

lemma decode3_arith:
  assumes "0xE0 \<le> (x::nat)" "x < 0xF0" "0x80 \<le> y" "y < 0xC0" "0x80 \<le> z" "z < 0xC0"
    and "x = 0xE0 \<longrightarrow> 0xA0 \<le> y" and "x = 0xED \<longrightarrow> y < 0xA0"
    and "c = x * 4096 + y * 64 + z - 0xE2080"
  shows "0x800 \<le> c \<and> c < 0x10000 \<and> \<not> is_surrogate c \<and>
         0xE0 + c div 4096 = x \<and> 0x80 + c div 64 mod 64 = y \<and> 0x80 + c mod 64 = z"
proof -
  have d1: "c div 64 = x * 64 + y - 0x3880 \<and> c mod 64 = z - 0x80"
    by (rule digit_split) (use assms in linarith)+
  have d2: "c div 64 div 64 = x - 0xE0 \<and> c div 64 mod 64 = y - 0x80"
    by (rule digit_split) (use assms d1 in linarith)+
  have d3: "c div 4096 = x - 0xE0"
    using d2 by (simp add: div_mult2_eq [symmetric])
  have lo: "0x800 \<le> c" using assms(1,3,5,7,9) by linarith
  have hi: "c < 0x10000" using assms(2,4,6,9) by linarith
  have sur: "\<not> is_surrogate c"
  proof (cases "x < 0xED")
    case True then show ?thesis using assms(4,6,9) unfolding is_surrogate_def by linarith
  next
    case False
    show ?thesis
    proof (cases "x = 0xED")
      case True then show ?thesis using assms(4,6,8,9) unfolding is_surrogate_def by simp
    next
      case False2: False
      with False have "0xEE \<le> x" by simp
      then show ?thesis using assms(3,5,9) unfolding is_surrogate_def by linarith
    qed
  qed
  have "0xE0 + c div 4096 = x" using d3 assms(1) by linarith
  moreover have "0x80 + c div 64 mod 64 = y" using d2 assms(3) by linarith
  moreover have "0x80 + c mod 64 = z" using d1 assms(5) by linarith
  ultimately show ?thesis using lo hi sur by blast
qed


lemma decode4_arith:
  assumes "0xF0 \<le> (x::nat)" "x < 0xF5" "0x80 \<le> y" "y < 0xC0" "0x80 \<le> z" "z < 0xC0"
    and "0x80 \<le> w" "w < 0xC0"
    and "x = 0xF0 \<longrightarrow> 0x90 \<le> y" and "x = 0xF4 \<longrightarrow> y < 0x90"
    and "c = x * 262144 + y * 4096 + z * 64 + w - 0x3C82080"
  shows "0x10000 \<le> c \<and> c < 0x110000 \<and> 0xF0 + c div 262144 = x \<and>
         0x80 + c div 4096 mod 64 = y \<and> 0x80 + c div 64 mod 64 = z \<and> 0x80 + c mod 64 = w"
proof -
  have d1: "c div 64 = x * 4096 + y * 64 + z - 0xF2080 \<and> c mod 64 = w - 0x80"
    by (rule digit_split) (use assms in linarith)+
  have d2: "c div 64 div 64 = x * 64 + y - 0x3C80 \<and> c div 64 mod 64 = z - 0x80"
    by (rule digit_split) (use assms d1 in linarith)+
  have d3: "c div 64 div 64 div 64 = x - 0xF0 \<and> c div 64 div 64 mod 64 = y - 0x80"
    by (rule digit_split) (use assms d2 in linarith)+
  have e1: "c div 4096 = c div 64 div 64"
    by (simp add: div_mult2_eq [symmetric])
  have e2: "c div 262144 = c div 64 div 64 div 64"
    by (simp add: div_mult2_eq [symmetric])
  have lo: "0x10000 \<le> c"
  proof (cases "x = 0xF0")
    case True then show ?thesis using assms(3,5,7,9,11) by simp
  next
    case False then show ?thesis using assms(1,3,5,7,11) by linarith
  qed
  have hi: "c < 0x110000"
  proof (cases "x = 0xF4")
    case True then show ?thesis using assms(6,8,10,11) by simp
  next
    case False then show ?thesis using assms(2,4,6,8,11) by linarith
  qed
  have "0xF0 + c div 262144 = x" using d3 e2 assms(1) by linarith
  moreover have "0x80 + c div 4096 mod 64 = y" unfolding e1 using d3 assms(3) by linarith
  moreover have "0x80 + c div 64 mod 64 = z" using d2 assms(5) by linarith
  moreover have "0x80 + c mod 64 = w" using d1 assms(7) by linarith
  ultimately show ?thesis using lo hi by blast
qed

lemma encode2_digits:
  assumes "c = a * 64 + d" "d < 64" "0x80 \<le> (c::nat)" "c < 0x800"
  shows "0xC2 \<le> 0xC0 + a \<and> 0xC0 + a < 0xE0 \<and> is_cont (0x80 + d) \<and>
         (0xC0 + a) * 64 + (0x80 + d) - 0x3080 = c"
proof -
  have "a < 32" "2 \<le> a" using assms by linarith+
  with assms show ?thesis unfolding is_cont_def by simp
qed

lemma encode3_digits:
  assumes "c = a * 4096 + b * 64 + d" "b < 64" "d < 64"
    and "0x800 \<le> (c::nat)" "c < 0x10000" "\<not> is_surrogate c"
  shows "0xE0 + a < 0xF0 \<and> second_ok (0xE0 + a) (0x80 + b) \<and> is_cont (0x80 + d) \<and>
         (0xE0 + a) * 4096 + (0x80 + b) * 64 + (0x80 + d) - 0xE2080 = c"
proof -
  have a: "a < 16" using assms(1,5) by linarith
  have s: "second_ok (0xE0 + a) (0x80 + b)"
  proof (cases "a = 0")
    case True then show ?thesis using assms(1-4) unfolding second_ok_def by simp
  next
    case False
    show ?thesis
    proof (cases "a = 13")
      case True then show ?thesis using assms(1,2,3,6) unfolding second_ok_def is_surrogate_def
        by simp
    next
      case False2: False
      with False a show ?thesis using assms(2) unfolding second_ok_def is_cont_def by simp
    qed
  qed
  with a assms(1,3) show ?thesis unfolding is_cont_def by simp
qed

lemma encode4_digits:
  assumes "c = a * 262144 + b * 4096 + e * 64 + d" "b < 64" "e < 64" "d < 64"
    and "0x10000 \<le> (c::nat)" "c < 0x110000"
  shows "0xF0 + a < 0xF5 \<and> second_ok (0xF0 + a) (0x80 + b) \<and> is_cont (0x80 + e) \<and>
         is_cont (0x80 + d) \<and>
         (0xF0 + a) * 262144 + (0x80 + b) * 4096 + (0x80 + e) * 64 + (0x80 + d) - 0x3C82080 = c"
proof -
  have a: "a < 5" using assms(1,6) by linarith
  have s: "second_ok (0xF0 + a) (0x80 + b)"
  proof (cases "a = 0")
    case True then show ?thesis using assms(1-5) unfolding second_ok_def by simp
  next
    case False
    show ?thesis
    proof (cases "a = 4")
      case True then show ?thesis using assms(1-4,6) unfolding second_ok_def by simp
    next
      case False2: False
      with False a show ?thesis using assms(2) unfolding second_ok_def is_cont_def by simp
    qed
  qed
  with a assms(1,3,4) show ?thesis unfolding is_cont_def by simp
qed
subsection \<open>One code point\<close>


lemma utf8_decode_one_SomeE:
  assumes "utf8_decode_one b bs = Some (c, n)"
  obtains (one) "unat b < 0x80" "c = unat b" "n = 0"
  | (two) b1 r where "bs = b1 # r" "0xC2 \<le> unat b" "unat b < 0xE0" "is_cont (unat b1)"
      "c = unat b * 64 + unat b1 - 0x3080" "n = 1"
  | (three) b1 b2 r where "bs = b1 # b2 # r" "0xE0 \<le> unat b" "unat b < 0xF0"
      "second_ok (unat b) (unat b1)" "is_cont (unat b2)"
      "c = unat b * 4096 + unat b1 * 64 + unat b2 - 0xE2080" "n = 2"
  | (four) b1 b2 b3 r where "bs = b1 # b2 # b3 # r" "0xF0 \<le> unat b" "unat b < 0xF5"
      "second_ok (unat b) (unat b1)" "is_cont (unat b2)" "is_cont (unat b3)"
      "c = unat b * 262144 + unat b1 * 4096 + unat b2 * 64 + unat b3 - 0x3C82080" "n = 3"
  using assms unfolding utf8_decode_one_def Let_def
  by (auto split: if_splits list.splits)

lemma second_ok_cont: "second_ok x y \<Longrightarrow> is_cont y"
  by (auto simp: second_ok_def is_cont_def split: if_splits)

lemma utf8_encode_cp_decode_one:
  assumes "utf8_decode_one b bs = Some (c, n)"
  shows "n \<le> length bs \<and> utf8_encode_cp c = Some (b # take n bs)"
  using assms
proof (cases rule: utf8_decode_one_SomeE)
  case one
  then show ?thesis by (simp add: utf8_encode_cp_def)
next
  case (two b1 r)
  then have "0x80 \<le> c \<and> c < 0x800 \<and> 0xC0 + c div 64 = unat b \<and> 0x80 + c mod 64 = unat b1"
    by (intro decode2_arith) (auto simp: is_cont_def)
  with two show ?thesis by (simp add: utf8_encode_cp_def)
next
  case (three b1 b2 r)
  then have "0x800 \<le> c \<and> c < 0x10000 \<and> \<not> is_surrogate c \<and> 0xE0 + c div 4096 = unat b \<and>
      0x80 + c div 64 mod 64 = unat b1 \<and> 0x80 + c mod 64 = unat b2"
    by (intro decode3_arith) (auto simp: is_cont_def second_ok_def split: if_splits)
  with three show ?thesis by (simp add: utf8_encode_cp_def)
next
  case (four b1 b2 b3 r)
  then have "0x10000 \<le> c \<and> c < 0x110000 \<and> 0xF0 + c div 262144 = unat b \<and>
      0x80 + c div 4096 mod 64 = unat b1 \<and> 0x80 + c div 64 mod 64 = unat b2 \<and>
      0x80 + c mod 64 = unat b3"
    by (intro decode4_arith) (auto simp: is_cont_def second_ok_def split: if_splits)
  with four show ?thesis by (simp add: utf8_encode_cp_def is_surrogate_def)
qed



lemma utf8_decode_one_encode_cp:
  assumes "utf8_encode_cp c = Some e"
  shows "\<exists>b e'. e = b # e' \<and> utf8_decode_one b (e' @ r) = Some (c, length e')"
proof -
  note p = mod_div_parts [of c]
  have p3: "c = c div 4096 * 4096 + c div 64 mod 64 * 64 + c mod 64"
    using p(1,2) by linarith
  have p4: "c = c div 262144 * 262144 + c div 4096 mod 64 * 4096 + c div 64 mod 64 * 64 + c mod 64"
    using p(1,2,3) by linarith
  consider (one) "c < 0x80" | (two) "0x80 \<le> c" "c < 0x800"
    | (three) "0x800 \<le> c" "c < 0x10000" "\<not> is_surrogate c"
    | (four) "0x10000 \<le> c" "c < 0x110000"
    using assms by (force simp: utf8_encode_cp_def split: if_splits)
  then show ?thesis
  proof cases
    case one
    with assms have "e = [of_nat c]" "unat (of_nat c :: byte) = c"
      by (simp_all add: utf8_encode_cp_def)
    with one show ?thesis by (simp add: utf8_decode_one_def)
  next
    case two
    define x y where "x = 0xC0 + c div 64" and "y = 0x80 + c mod 64"
    have e: "e = [of_nat x, of_nat y]"
      using assms two by (simp add: utf8_encode_cp_def x_def y_def)
    have d: "0xC2 \<le> x \<and> x < 0xE0 \<and> is_cont y \<and> x * 64 + y - 0x3080 = c"
      unfolding x_def y_def by (rule encode2_digits) (use p two in simp_all)
    then have "unat (of_nat x :: byte) = x" "unat (of_nat y :: byte) = y"
      by (simp_all add: is_cont_def)
    with d show ?thesis unfolding e by (simp add: utf8_decode_one_def)
  next
    case three
    define x y z where "x = 0xE0 + c div 4096" and "y = 0x80 + c div 64 mod 64"
      and "z = 0x80 + c mod 64"
    have e: "e = [of_nat x, of_nat y, of_nat z]"
      using assms three by (simp add: utf8_encode_cp_def x_def y_def z_def)
    have d: "x < 0xF0 \<and> second_ok x y \<and> is_cont z \<and> x * 4096 + y * 64 + z - 0xE2080 = c"
      unfolding x_def y_def z_def by (rule encode3_digits) (use p3 three in simp_all)
    then have "unat (of_nat x :: byte) = x" "unat (of_nat y :: byte) = y"
      "unat (of_nat z :: byte) = z"
      using second_ok_cont [of x y] by (simp_all add: is_cont_def)
    moreover have "0xE0 \<le> x" by (simp add: x_def)
    ultimately show ?thesis using d unfolding e by (simp add: utf8_decode_one_def)
  next
    case four
    define x y z w where "x = 0xF0 + c div 262144" and "y = 0x80 + c div 4096 mod 64"
      and "z = 0x80 + c div 64 mod 64" and "w = 0x80 + c mod 64"
    have e: "e = [of_nat x, of_nat y, of_nat z, of_nat w]"
      using assms four by (simp add: utf8_encode_cp_def x_def y_def z_def w_def is_surrogate_def)
    have d: "x < 0xF5 \<and> second_ok x y \<and> is_cont z \<and> is_cont w \<and>
        x * 262144 + y * 4096 + z * 64 + w - 0x3C82080 = c"
      unfolding x_def y_def z_def w_def by (rule encode4_digits) (use p4 four in simp_all)
    then have "unat (of_nat x :: byte) = x" "unat (of_nat y :: byte) = y"
      "unat (of_nat z :: byte) = z" "unat (of_nat w :: byte) = w"
      using second_ok_cont [of x y] by (simp_all add: is_cont_def)
    moreover have "0xF0 \<le> x" by (simp add: x_def)
    ultimately show ?thesis using d unfolding e by (simp add: utf8_decode_one_def)
  qed
qed

subsection \<open>Round trips\<close>


lemma utf8_encode_cp_Some_iff: "utf8_encode_cp c \<noteq> None \<longleftrightarrow> scalar c"
  by (auto simp: utf8_encode_cp_def scalar_def is_surrogate_def)

theorem utf8_decode_encode:
  "utf8_decode bs = Some t \<Longrightarrow> utf8_encode t = Some bs"
proof (induction bs arbitrary: t rule: utf8_decode.induct)
  case 1
  then show ?case by simp
next
  case (2 b bs)
  from "2.prems" obtain c n t' where one: "utf8_decode_one b bs = Some (c, n)"
    and rest: "utf8_decode (drop n bs) = Some t'" and t: "t = c # t'"
    by (auto split: option.splits)
  from one have "n \<le> length bs \<and> utf8_encode_cp c = Some (b # take n bs)"
    by (rule utf8_encode_cp_decode_one)
  moreover from "2.IH" [OF one refl rest] have "utf8_encode t' = Some (drop n bs)" .
  ultimately show ?case by (simp add: t)
qed

text \<open>
  C17.  Encode/decode round trip: whatever text the output writer can encode (every code
  point a Unicode scalar value) is decoded by the strict reader back to the same text.
\<close>

theorem utf8_encode_decode:
  "utf8_encode t = Some bs \<Longrightarrow> utf8_decode bs = Some t"
proof (induction t arbitrary: bs)
  case Nil
  then show ?case by simp
next
  case (Cons c t)
  from Cons.prems obtain e r where ec: "utf8_encode_cp c = Some e"
    and er: "utf8_encode t = Some r" and bs: "bs = e @ r"
    by (auto split: option.splits)
  from utf8_decode_one_encode_cp [OF ec, of r] obtain b e' where
    e: "e = b # e'" and one: "utf8_decode_one b (e' @ r) = Some (c, length e')"
    by blast
  from Cons.IH [OF er] one show ?case by (simp add: bs e)
qed

lemma utf8_decode_one_scalar: "utf8_decode_one b bs = Some (c, n) \<Longrightarrow> scalar c"
  using utf8_encode_cp_decode_one utf8_encode_cp_Some_iff by fastforce

lemma utf8_decode_one_ascii: "unat b < 0x80 \<Longrightarrow> utf8_decode_one b bs = Some (unat b, 0)"
  by (simp add: utf8_decode_one_def)

theorem fsencode_fsdecode: "fsencode (fsdecode bs) = Some bs"
proof (induction bs rule: fsdecode.induct)
  case 1
  then show ?case by simp
next
  case (2 b bs)
  show ?case
  proof (cases "utf8_decode_one b bs")
    case None
    then have "0x80 \<le> unat b" using utf8_decode_one_ascii [of b bs] by fastforce
    then have "fsencode_cp (0xDC00 + unat b) = Some [b]"
      by (simp add: fsencode_cp_def)
    with None "2.IH"(1) show ?thesis by simp
  next
    case (Some p)
    then obtain c n where one: "utf8_decode_one b bs = Some (c, n)" by (cases p) auto
    then have "scalar c" by (rule utf8_decode_one_scalar)
    then have "\<not> (0xDC80 \<le> c \<and> c < 0xDD00)"
      unfolding scalar_def is_surrogate_def by linarith
    then have "fsencode_cp c = utf8_encode_cp c"
      unfolding fsencode_cp_def by (rule if_not_P)
    with one utf8_encode_cp_decode_one [OF one] "2.IH"(2) [OF one refl] show ?thesis
      by simp
  qed
qed

theorem fsdecode_utf8: "utf8_decode bs = Some t \<Longrightarrow> fsdecode bs = t"
  by (induction bs arbitrary: t rule: utf8_decode.induct) (auto split: option.splits)

subsection \<open>What the codec preserves\<close>

lemma utf8_encode_None_iff: "utf8_encode s = None \<longleftrightarrow> \<not> list_all scalar s"
  by (induction s) (auto simp: utf8_encode_cp_Some_iff [symmetric] split: option.splits)

lemma utf8_encode_ascii_mem:
  "utf8_encode u = Some bs \<Longrightarrow> c \<in> set u \<Longrightarrow> c < 128 \<Longrightarrow> (of_nat c :: byte) \<in> set bs"
  by (induction u arbitrary: bs) (auto simp: utf8_encode_cp_def split: option.splits)

lemma utf8_decode_one_ascii_cp:
  "utf8_decode_one b bs = Some (c, n) \<Longrightarrow> c < 128 \<Longrightarrow> b = of_nat c"
  using utf8_encode_cp_decode_one [of b bs c n] by (simp add: utf8_encode_cp_def)

lemma fsdecode_ascii_mem:
  "c \<in> set (fsdecode bs) \<Longrightarrow> c < 128 \<Longrightarrow> (of_nat c :: byte) \<in> set bs"
proof (induction bs rule: fsdecode.induct)
  case 1
  then show ?case by simp
next
  case (2 b bs)
  show ?case
  proof (cases "utf8_decode_one b bs")
    case None
    with "2.prems" "2.IH"(1) show ?thesis by auto
  next
    case (Some p)
    then obtain c' n where one: "utf8_decode_one b bs = Some (c', n)" by (cases p) auto
    show ?thesis
    proof (cases "c = c'")
      case True
      with one "2.prems" utf8_decode_one_ascii_cp [OF one] show ?thesis by simp
    next
      case False
      with one "2.prems" have "c \<in> set (fsdecode (drop n bs))" by simp
      with "2.IH"(2) [OF one refl] "2.prems"(2) show ?thesis by (auto dest: in_set_dropD)
    qed
  qed
qed

lemma fsdecode_scalar_iff: "list_all scalar (fsdecode bs) \<longleftrightarrow> utf8_decode bs \<noteq> None"
proof (induction bs rule: fsdecode.induct)
  case 1
  then show ?case by simp
next
  case (2 b bs)
  show ?case
  proof (cases "utf8_decode_one b bs")
    case None
    then have "0x80 \<le> unat b" using utf8_decode_one_ascii [of b bs] by fastforce
    then have "\<not> scalar (0xDC00 + unat b)"
      using unat_byte_lt [of b] unfolding scalar_def is_surrogate_def by linarith
    with None show ?thesis by simp
  next
    case (Some p)
    then obtain c n where one: "utf8_decode_one b bs = Some (c, n)" by (cases p) auto
    with "2.IH"(2) [OF one refl] utf8_decode_one_scalar [OF one] show ?thesis
      by (simp split: option.split)
  qed
qed


end
