(* ===== verification/FsWalk.thy ===== *)
theory FsWalk
  imports Utf8
begin

text \<open>
  The file system the program scans and \<open>os.walk\<close> over it (line 31 of
  \<open>src/ingest.py\<close>, with the pruning of line 33).
  A directory is the list of its entries in the order \<open>os.scandir\<close> enumerates them;
  an entry carries its name as the bytes the kernel stores.  \<open>File n c\<close> is anything
  \<open>entry.is_dir()\<close> reports as no directory (a plain file, a symbolic link to one, a
  broken link): \<open>c = None\<close> when \<open>open\<close> fails on it (permission, broken link).
  \<open>Dir n es\<close> is a directory, \<open>DirLink n\<close> a symbolic link to a directory, which
  \<open>os.walk\<close> lists in \<open>dirs\<close> and never enters (\<open>followlinks=False\<close>), and
  \<open>Locked n\<close> a directory \<open>os.scandir\<close> cannot list, which \<open>os.walk\<close> skips
  silently (\<open>onerror=None\<close>).
  \<open>os.walk\<close> yields \<open>(root, dirs, files)\<close> top-down and then enters, in order, the
  directories left in \<open>dirs\<close>; the caller's \<open>dirs[:] = [...]\<close> runs between the two,
  so the walk is modelled with the caller's filter \<open>keep\<close> as a parameter.  Names are
  decoded with \<open>os.fsdecode\<close>; \<open>root\<close> is kept as its list of components below
  \<open>'.'\<close>.
\<close>

datatype node =
    File bytes "bytes option"
  | Dir bytes "node list"
  | DirLink bytes
  | Locked bytes

primrec node_name :: "node \<Rightarrow> bytes" where
  "node_name (File n c) = n"
| "node_name (Dir n es) = n"
| "node_name (DirLink n) = n"
| "node_name (Locked n) = n"

primrec is_dir_entry :: "node \<Rightarrow> bool" where
  "is_dir_entry (File n c) = False"
| "is_dir_entry (Dir n es) = True"
| "is_dir_entry (DirLink n) = True"
| "is_dir_entry (Locked n) = True"

definition file_names :: "node list \<Rightarrow> ustr list" where
  "file_names es = [fsdecode (node_name e). e \<leftarrow> es, \<not> is_dir_entry e]"

definition dir_names :: "node list \<Rightarrow> ustr list" where
  "dir_names es = [fsdecode (node_name e). e \<leftarrow> es, is_dir_entry e]"

fun walk :: "(ustr \<Rightarrow> bool) \<Rightarrow> ustr list \<Rightarrow> node list \<Rightarrow> (ustr list \<times> ustr list) list" where
  "walk keep root es =
    (root, file_names es) #
    concat (map (\<lambda>e. case e of
                       Dir n cs \<Rightarrow>
                         if keep (fsdecode n) then walk keep (root @ [fsdecode n]) cs else []
                     | _ \<Rightarrow> []) es)"

fun lookup :: "node list \<Rightarrow> bytes list \<Rightarrow> node option" where
  "lookup es [] = None"
| "lookup es [n] = find (\<lambda>e. node_name e = n) es"
| "lookup es (n # m # ns) =
    (case find (\<lambda>e. node_name e = n) es of
       Some (Dir _ cs) \<Rightarrow> lookup cs (m # ns)
     | _ \<Rightarrow> None)"

definition read_bytes :: "node list \<Rightarrow> ustr list \<Rightarrow> py_error + bytes" where
  "read_bytes fs comps =
    (case those (map fsencode comps) of
       None \<Rightarrow> Inl UnicodeEncodeError
     | Some ns \<Rightarrow>
         (case lookup fs ns of
            None \<Rightarrow> Inl FileNotFoundError
          | Some (File _ (Some bs)) \<Rightarrow> Inr bs
          | Some (File _ None) \<Rightarrow> Inl PermissionError
          | Some _ \<Rightarrow> Inl IsADirectoryError))"

definition valid_name :: "bytes \<Rightarrow> bool" where
  "valid_name n \<longleftrightarrow> n \<noteq> [] \<and> 0x2F \<notin> set n \<and> 0 \<notin> set n \<and> n \<noteq> [0x2E] \<and> n \<noteq> [0x2E, 0x2E]"

fun wf_fs :: "node list \<Rightarrow> bool" where
  "wf_fs es \<longleftrightarrow>
    distinct (map node_name es) \<and>
    (\<forall>e \<in> set es. valid_name (node_name e) \<and> (case e of Dir n cs \<Rightarrow> wf_fs cs | _ \<Rightarrow> True))"

text \<open>
  The operations on the output file, a file \<open>f\<close> in a directory \<open>d\<close> of the top
  level: \<open>os.remove\<close> (\<open>unlink\<close>: a file or a symbolic link goes, a directory
  raises \<open>IsADirectoryError\<close>), \<open>open(path, 'w')\<close> (truncates an existing file in
  place, creates a missing one at the end of the listing; a missing parent raises
  \<open>FileNotFoundError\<close>, a file as parent \<open>NotADirectoryError\<close>; a parent that is a
  symbolic link puts the file outside the modelled tree, and a parent that cannot be
  listed is taken to refuse the creation with \<open>PermissionError\<close>) and the flush on
  close, which appends the bytes written through the handle to the content the file had
  when it was opened (none, after the truncation of mode \<open>'w'\<close>).
\<close>

definition map_dir :: "bytes \<Rightarrow> (node list \<Rightarrow> node list) \<Rightarrow> node list \<Rightarrow> node list" where
  "map_dir d g es =
    map (\<lambda>e. case e of Dir n cs \<Rightarrow> if n = d then Dir n (g cs) else e | _ \<Rightarrow> e) es"

definition os_remove :: "bytes \<Rightarrow> bytes \<Rightarrow> node list \<Rightarrow> py_error + node list" where
  "os_remove d f es =
    (case lookup es [d, f] of
       None \<Rightarrow> Inl FileNotFoundError
     | Some (File _ _) \<Rightarrow> Inr (map_dir d (filter (\<lambda>e. node_name e \<noteq> f)) es)
     | Some (DirLink _) \<Rightarrow> Inr (map_dir d (filter (\<lambda>e. node_name e \<noteq> f)) es)
     | Some _ \<Rightarrow> Inl IsADirectoryError)"

definition set_file :: "bytes \<Rightarrow> bytes \<Rightarrow> node list \<Rightarrow> node list" where
  "set_file f bs cs =
    map (\<lambda>e. case e of File n _ \<Rightarrow> if n = f then File n (Some bs) else e | _ \<Rightarrow> e) cs"

definition append_file :: "bytes \<Rightarrow> bytes \<Rightarrow> node list \<Rightarrow> node list" where
  "append_file f bs cs =
    map (\<lambda>e. case e of File n (Some c) \<Rightarrow> if n = f then File n (Some (c @ bs)) else e | _ \<Rightarrow> e) cs"

definition open_write :: "bytes \<Rightarrow> bytes \<Rightarrow> node list \<Rightarrow> py_error + node list" where
  "open_write d f es =
    (case lookup es [d] of
       None \<Rightarrow> Inl FileNotFoundError
     | Some (File _ _) \<Rightarrow> Inl NotADirectoryError
     | Some (DirLink _) \<Rightarrow> Inr es
     | Some (Locked _) \<Rightarrow> Inl PermissionError
     | Some (Dir _ cs) \<Rightarrow>
         (case find (\<lambda>e. node_name e = f) cs of
            None \<Rightarrow> Inr (map_dir d (\<lambda>cs. cs @ [File f (Some [])]) es)
          | Some (File _ (Some _)) \<Rightarrow> Inr (map_dir d (set_file f []) es)
          | Some (File _ None) \<Rightarrow> Inl PermissionError
          | Some _ \<Rightarrow> Inl IsADirectoryError))"

definition close_write :: "bytes \<Rightarrow> bytes \<Rightarrow> bytes \<Rightarrow> node list \<Rightarrow> node list" where
  "close_write d f bs es = map_dir d (append_file f bs) es"

declare walk.simps [simp del]

lemma find_name_distinct:
  "distinct (map node_name es) \<Longrightarrow> e \<in> set es \<Longrightarrow> find (\<lambda>x. node_name x = node_name e) es = Some e"
  by (induction es) (auto simp: image_iff)

lemma lookup_Cons_app:
  "lookup es (n # ns @ [m]) =
    (case find (\<lambda>e. node_name e = n) es of Some (Dir _ cs) \<Rightarrow> lookup cs (ns @ [m]) | _ \<Rightarrow> None)"
  by (cases ns) (simp_all split: option.split node.split)

lemma find_SomeD: "find P xs = Some x \<Longrightarrow> x \<in> set xs \<and> P x"
  by (auto simp: find_Some_iff)

lemma walk_item_cases:
  assumes "x \<in> set (walk keep root es)"
  obtains "x = (root, file_names es)"
  | n cs where "Dir n cs \<in> set es" "keep (fsdecode n)" "x \<in> set (walk keep (root @ [fsdecode n]) cs)"
  using assms by (subst (asm) walk.simps) (auto split: node.splits if_splits)

lemma walk_sub:
  "Dir n cs \<in> set es \<Longrightarrow> keep (fsdecode n) \<Longrightarrow>
   set (walk keep (root @ [fsdecode n]) cs) \<subseteq> set (walk keep root es)"
  by (subst (2) walk.simps) force

lemma walk_root: "(root, file_names es) \<in> set (walk keep root es)"
  by (subst walk.simps) simp

lemma walk_kept:
  "(r, fl) \<in> set (walk keep root es) \<Longrightarrow> \<exists>ext. r = root @ ext \<and> (\<forall>d \<in> set ext. keep d)"
proof (induction keep root es arbitrary: r fl rule: walk.induct)
  case (1 keep root es)
  from "1.prems" show ?case
  proof (cases rule: walk_item_cases)
    case 1
    then show ?thesis by simp
  next
    case (2 n cs)
    with "1.IH" [of "Dir n cs" n cs] obtain ext where
      "r = root @ [fsdecode n] @ ext" "\<forall>d \<in> set ext. keep d"
      by auto
    with 2 show ?thesis by (intro exI [of _ "fsdecode n # ext"]) simp
  qed
qed

lemma walk_sound:
  "wf_fs es \<Longrightarrow> (r, fl) \<in> set (walk keep root es) \<Longrightarrow> f \<in> set fl \<Longrightarrow>
   \<exists>ns n c. r = root @ map fsdecode ns \<and> f = fsdecode n \<and> lookup es (ns @ [n]) = Some (File n c)"
proof (induction keep root es arbitrary: r fl rule: walk.induct)
  case (1 keep root es)
  from "1.prems"(2) show ?case
  proof (cases rule: walk_item_cases)
    case 1
    with "1.prems"(3) obtain e where e: "e \<in> set es" "\<not> is_dir_entry e" "f = fsdecode (node_name e)"
      by (auto simp: file_names_def)
    from e(2) obtain n c where "e = File n c" by (cases e) simp_all
    moreover have "find (\<lambda>x. node_name x = node_name e) es = Some e"
      using "1.prems"(1) e(1) by (simp add: find_name_distinct)
    ultimately show ?thesis using e 1
      by (intro exI [of _ "[]"] exI [of _ n] exI [of _ c]) simp
  next
    case (2 n cs)
    have wf: "wf_fs cs" using "1.prems"(1) 2(1) by fastforce
    from "1.IH" [OF 2(1) refl 2(2) wf 2(3) "1.prems"(3)] obtain ns m c where
      ih: "r = root @ [fsdecode n] @ map fsdecode ns" "f = fsdecode m"
        "lookup cs (ns @ [m]) = Some (File m c)"
      by auto
    have "find (\<lambda>x. node_name x = n) es = Some (Dir n cs)"
      using find_name_distinct [of es "Dir n cs"] "1.prems"(1) 2(1) by simp
    with ih show ?thesis
      by (intro exI [of _ "n # ns"] exI [of _ m] exI [of _ c]) (simp add: lookup_Cons_app)
  qed
qed

lemma walk_complete:
  "lookup es (ns @ [n]) = Some (File n c) \<Longrightarrow> \<forall>d \<in> set ns. keep (fsdecode d) \<Longrightarrow>
   \<exists>fl. (root @ map fsdecode ns, fl) \<in> set (walk keep root es) \<and> fsdecode n \<in> set fl"
proof (induction ns arbitrary: es root)
  case Nil
  then have "File n c \<in> set es" by (auto dest: find_SomeD)
  then have "fsdecode n \<in> set (file_names es)" by (force simp: file_names_def)
  then show ?case using walk_root by auto
next
  case (Cons d ns)
  then obtain x cs where f: "find (\<lambda>e. node_name e = d) es = Some (Dir x cs)"
    and l: "lookup cs (ns @ [n]) = Some (File n c)"
    by (auto simp: lookup_Cons_app split: option.splits node.splits)
  from find_SomeD [OF f] have "Dir d cs \<in> set es" by auto
  moreover from Cons.prems have "keep (fsdecode d)" by simp
  moreover have "\<forall>d \<in> set ns. keep (fsdecode d)" using Cons.prems by simp
  with Cons.IH [OF l, where root = "root @ [fsdecode d]"] obtain fl where
    "((root @ [fsdecode d]) @ map fsdecode ns, fl) \<in> set (walk keep (root @ [fsdecode d]) cs)"
    "fsdecode n \<in> set fl"
    by blast
  ultimately show ?case using walk_sub [of d cs es keep root] by auto
qed

subsection \<open>The output-file operations\<close>

lemma map_dir_comp: "map_dir d f (map_dir d g es) = map_dir d (f \<circ> g) es"
  by (induction es) (auto simp: map_dir_def split: node.splits)

lemma map_dir_names [simp]: "map node_name (map_dir d g es) = map node_name es"
  by (induction es) (auto simp: map_dir_def split: node.splits)

lemma find_map_dir:
  "find (\<lambda>e. node_name e = n) (map_dir d g es) =
    map_option (\<lambda>e. case e of Dir m cs \<Rightarrow> if m = d then Dir m (g cs) else e | _ \<Rightarrow> e)
      (find (\<lambda>e. node_name e = n) es)"
  by (induction es) (auto simp: map_dir_def split: node.splits)

lemma map_dir_cong:
  assumes "distinct (map node_name es)" "find (\<lambda>e. node_name e = d) es = Some (Dir d cs)"
    and "f cs = g cs"
  shows "map_dir d f es = map_dir d g es"
proof -
  have u: "cs' = cs" if "Dir d cs' \<in> set es" for cs'
  proof -
    from find_name_distinct [OF assms(1) that]
    have "find (\<lambda>x. node_name x = d) es = Some (Dir d cs')" by simp
    with assms(2) show "cs' = cs" by simp
  qed
  show ?thesis
    unfolding map_dir_def
  proof (rule map_cong [OF refl])
    fix e assume "e \<in> set es"
    with u assms(3) show "(case e of Dir n cs \<Rightarrow> if n = d then Dir n (f cs) else e | _ \<Rightarrow> e) =
        (case e of Dir n cs \<Rightarrow> if n = d then Dir n (g cs) else e | _ \<Rightarrow> e)"
      by (cases e) auto
  qed
qed

lemma map_dir_absent:
  "\<forall>cs. Dir d cs \<notin> set es \<Longrightarrow> map_dir d g es = es"
  by (induction es) (auto simp: map_dir_def split: node.splits)

subsection \<open>Every directory once\<close>

lemma fsdecode_inj: "fsdecode a = fsdecode b \<Longrightarrow> a = b"
  by (metis fsencode_fsdecode option.inject)

lemma those_fsencode: "those (map (fsencode \<circ> fsdecode) ns) = Some ns"
  by (induction ns) (simp_all add: fsencode_fsdecode)

lemma read_bytes_fsdecode:
  "lookup es ns = Some (File n c) \<Longrightarrow>
   read_bytes es (map fsdecode ns) = (case c of Some bs \<Rightarrow> Inr bs | None \<Rightarrow> Inl PermissionError)"
  by (cases c) (simp_all add: read_bytes_def those_fsencode)

lemma distinct_concat_map:
  "distinct xs \<Longrightarrow> (\<And>x. x \<in> set xs \<Longrightarrow> distinct (g x)) \<Longrightarrow>
   (\<And>x y. x \<in> set xs \<Longrightarrow> y \<in> set xs \<Longrightarrow> x \<noteq> y \<Longrightarrow> set (g x) \<inter> set (g y) = {}) \<Longrightarrow>
   distinct (concat (map g xs))"
  by (induction xs) (simp_all, blast)

lemma file_names_distinct: "distinct (map node_name es) \<Longrightarrow> distinct (file_names es)"
  by (induction es) (auto simp: file_names_def dest: fsdecode_inj)

lemma walk_files_distinct:
  "wf_fs es \<Longrightarrow> (r, fl) \<in> set (walk keep root es) \<Longrightarrow> distinct fl"
proof (induction keep root es rule: walk.induct)
  case (1 keep root es)
  from "1.prems"(2) show ?case
  proof (cases rule: walk_item_cases)
    case 1
    with "1.prems"(1) show ?thesis by (simp add: file_names_distinct)
  next
    case (2 n cs)
    moreover from "1.prems"(1) 2 have "wf_fs cs" by fastforce
    ultimately show ?thesis using "1.IH" by blast
  qed
qed

lemma walk_distinct: "wf_fs es \<Longrightarrow> distinct (map fst (walk keep root es))"
proof (induction keep root es rule: walk.induct)
  case (1 keep root es)
  define g where "g = (\<lambda>e. case e of
      Dir n cs \<Rightarrow> if keep (fsdecode n) then walk keep (root @ [fsdecode n]) cs else []
    | _ \<Rightarrow> [])"
  have dn: "distinct (map node_name es)" using "1.prems" by simp
  have pre: "r \<in> set (map fst (g e)) \<Longrightarrow> \<exists>n cs ext. e = Dir n cs \<and> r = root @ fsdecode n # ext" for r e
    by (cases e) (auto simp: g_def split: if_splits dest!: walk_kept)
  have "distinct (concat (map (map fst \<circ> g) es))"
  proof (rule distinct_concat_map)
    show "distinct es" using dn by (simp add: distinct_map)
  next
    fix x assume x: "x \<in> set es"
    show "distinct ((map fst \<circ> g) x)"
    proof (cases x)
      case (Dir n cs)
      with "1.prems" x have "wf_fs cs" by fastforce
      with "1.IH" [OF x Dir] Dir show ?thesis by (simp add: g_def)
    qed (simp_all add: g_def)
  next
    fix x y assume x: "x \<in> set es" and y: "y \<in> set es" and "x \<noteq> y"
    with dn have ne: "node_name x \<noteq> node_name y" by (auto dest: inj_onD simp: distinct_map)
    show "set ((map fst \<circ> g) x) \<inter> set ((map fst \<circ> g) y) = {}"
    proof (rule ccontr)
      assume "set ((map fst \<circ> g) x) \<inter> set ((map fst \<circ> g) y) \<noteq> {}"
      then obtain r where "r \<in> set (map fst (g x))" "r \<in> set (map fst (g y))" by auto
      from pre [OF this(1)] pre [OF this(2)] ne show False by (auto dest: fsdecode_inj)
    qed
  qed
  moreover have "root \<notin> set (concat (map (map fst \<circ> g) es))"
    using pre by fastforce
  ultimately show ?case
    by (simp add: walk.simps [of keep root es] map_concat g_def [symmetric])
qed

subsection \<open>Walked paths have valid names\<close>

lemma wf_fs_mem:
  "wf_fs es \<Longrightarrow> e \<in> set es \<Longrightarrow> valid_name (node_name e) \<and> (case e of Dir n cs \<Rightarrow> wf_fs cs | _ \<Rightarrow> True)"
  by (subst (asm) wf_fs.simps) blast

lemma lookup_valid_names: "wf_fs es \<Longrightarrow> lookup es ns = Some e \<Longrightarrow> \<forall>n \<in> set ns. valid_name n"
proof (induction es ns rule: lookup.induct)
  case (2 es n)
  from "2.prems"(2) have "e \<in> set es" "node_name e = n" using find_SomeD by force+
  with wf_fs_mem [OF "2.prems"(1)] show ?case by auto
next
  case (3 es n m ns)
  from "3.prems"(2) obtain x cs where f: "find (\<lambda>e. node_name e = n) es = Some (Dir x cs)"
    and l: "lookup cs (m # ns) = Some e"
    by (auto simp del: wf_fs.simps split: option.splits node.splits)
  from find_SomeD [OF f] have m: "Dir x cs \<in> set es" "x = n" by auto
  from wf_fs_mem [OF "3.prems"(1) m(1)] m(2) have "valid_name n" "wf_fs cs"
    by (simp_all del: wf_fs.simps)
  with "3.IH" [OF f refl] l show ?case by simp
qed simp

end
