(* ===== verification/TextIO.thy ===== *)
theory TextIO
  imports FsWalk
begin

text \<open>
  Reading a file as text (line 51--52 of \<open>src/ingest.py\<close>:
  \<open>open(file_path, 'r', encoding='utf-8')\<close> and \<open>f.read()\<close>).
  \<open>read()\<close> with no size decodes the whole content in one call with \<open>final=True\<close>;
  the decoder is strict UTF-8 (\<open>Utf8.utf8_decode\<close>) and the file is in universal-newline
  mode (\<open>newline=None\<close>), so CPython's \<open>IncrementalNewlineDecoder\<close> then applies
  \<open>output.replace("\r\n", "\n")\<close> and \<open>output.replace("\r", "\n")\<close>
  (\<open>newline_decode\<close>, with \<open>py_replace\<close> the semantics of \<open>str.replace\<close> for a
  non-empty pattern).  \<open>translate_newlines\<close> is the one-pass reading of the same
  translation, and \<open>newline_decode_eq\<close> shows the two agree.
  Writing text (\<open>outfile.write\<close>) encodes strictly; with \<open>newline=None\<close> a written
  \<open>"\n"\<close> becomes \<open>os.linesep\<close>, which is \<open>"\n"\<close> on the POSIX systems modelled here.
\<close>

function py_replace :: "ustr \<Rightarrow> ustr \<Rightarrow> ustr \<Rightarrow> ustr" where
  "py_replace old new s =
    (if old = [] \<or> s = [] then s
     else if take (length old) s = old then new @ py_replace old new (drop (length old) s)
     else hd s # py_replace old new (tl s))"
  by pat_completeness auto
termination
  by (relation "measure (\<lambda>(old, new, s). length s)") auto

definition newline_decode :: "ustr \<Rightarrow> ustr" where
  "newline_decode s = py_replace [13] [10] (py_replace [13, 10] [10] s)"

fun translate_newlines :: "ustr \<Rightarrow> ustr" where
  "translate_newlines [] = []"
| "translate_newlines [c] = [if c = 13 then 10 else c]"
| "translate_newlines (c # d # cs) =
    (if c = 13 \<and> d = 10 then 10 # translate_newlines cs
     else (if c = 13 then 10 else c) # translate_newlines (d # cs))"

definition read_text :: "node list \<Rightarrow> ustr list \<Rightarrow> py_error + ustr" where
  "read_text fs comps =
    (case read_bytes fs comps of
       Inl e \<Rightarrow> Inl e
     | Inr bs \<Rightarrow>
         (case utf8_decode bs of
            None \<Rightarrow> Inl UnicodeDecodeError
          | Some t \<Rightarrow> Inr (newline_decode t)))"

declare py_replace.simps [simp del]

lemma py_replace_Nil [simp]: "py_replace old new [] = []"
  by (simp add: py_replace.simps)

lemma py_replace_crlf_hit [simp]: "py_replace [13, 10] [10] (13 # 10 # cs) = 10 # py_replace [13, 10] [10] cs"
  by (simp add: py_replace.simps [of _ _ "13 # 10 # cs"])

lemma py_replace_crlf_miss:
  "\<not> (c = 13 \<and> take 1 cs = [10]) \<Longrightarrow> py_replace [13, 10] [10] (c # cs) = c # py_replace [13, 10] [10] cs"
  by (subst py_replace.simps) (auto simp: take_Suc_conv_app_nth)

lemma py_replace_cr [simp]:
  "py_replace [13] [10] (c # cs) = (if c = 13 then 10 else c) # py_replace [13] [10] cs"
  by (simp add: py_replace.simps [of _ _ "c # cs"])

theorem newline_decode_eq: "newline_decode s = translate_newlines s"
proof (induction s rule: translate_newlines.induct)
  case 1
  then show ?case by (simp add: newline_decode_def)
next
  case (2 c)
  then show ?case by (simp add: newline_decode_def py_replace_crlf_miss)
next
  case (3 c d cs)
  show ?case
  proof (cases "c = 13 \<and> d = 10")
    case True
    with "3.IH"(1) show ?thesis by (simp add: newline_decode_def)
  next
    case False
    then have "py_replace [13, 10] [10] (c # d # cs) = c # py_replace [13, 10] [10] (d # cs)"
      by (intro py_replace_crlf_miss) simp
    with False "3.IH"(2) show ?thesis by (auto simp: newline_decode_def)
  qed
qed

lemma translate_newlines_id: "13 \<notin> set s \<Longrightarrow> translate_newlines s = s"
  by (induction s rule: translate_newlines.induct) auto

lemma translate_newlines_no_cr: "13 \<notin> set (translate_newlines s)"
  by (induction s rule: translate_newlines.induct) auto

end
