(* ===== verification/Ingest.thy ===== *)
theory Ingest
  imports PyPath TextIO
begin

text \<open>
  \<open>src/ingest.py\<close>: the configuration (lines 5--17), \<open>generate_context\<close>
  (lines 20--59) and the file-system effects of its first and last steps.
  The state of a run is the record \<open>ingest_st\<close>: the file system, the bytes written to
  the output file so far, the counter \<open>count\<close> and the lines printed to standard
  output (as structured \<open>log_line\<close> values; \<open>render_line\<close> gives the text each
  \<open>print\<close> writes, and \<open>stdout_text\<close> the whole of standard output).  An exception that escapes \<open>generate_context\<close> is a
  value \<open>Inl (e, st)\<close>, with \<open>st\<close> the state in which it was raised, since the
  \<open>with\<close> block still closes (and so flushes) the output file.
  The walk is computed in full before the loop runs; \<open>os.walk\<close> is a generator, but the
  loop never changes the file system it walks (\<open>IngestSpec.run_paths_fs\<close> with
  \<open>IngestSpec.process_walk_eq\<close>), so producing the items lazily or up front is the same.
  \<open>OUTPUT_FILE\<close> is the relative path \<open>notebookLM/project_context.md\<close>; the
  operating system resolves it to the two components \<open>OUT_DIR\<close> and \<open>OUT_NAME\<close>
  (\<open>output_components\<close>).
\<close>

definition OUTPUT_FILE :: ustr where
  "OUTPUT_FILE = asc ''notebookLM/project_context.md''"

definition IGNORED_DIRS :: "ustr set" where
  "IGNORED_DIRS = set (map asc
     [''build'', ''.gradle'', ''.git'', ''.idea'', ''.vscode'', ''node_modules'', ''__pycache__'',
      ''venv'', ''target'', ''dist'', ''coverage'', ''notebookLM''])"

definition INCLUDED_EXTENSIONS :: "ustr set" where
  "INCLUDED_EXTENSIONS = set (map asc
     [''.kt'', ''.kts'', ''.xml'', ''.java'', ''.gradle'', ''.py'', ''.js'', ''.ts'', ''.jsx'',
      ''.tsx'', ''.html'', ''.css'', ''.json'', ''.md'', ''.yaml'', ''.yml'', ''.toml'', ''.sql''])"

definition OUT_DIR :: bytes where
  "OUT_DIR = ascb ''notebookLM''"

definition OUT_NAME :: bytes where
  "OUT_NAME = ascb ''project_context.md''"

datatype log_line =
    Starting ustr
  | Reading ustr
  | ReadError ustr py_error
  | Finished nat
  | SavedTo ustr

record ingest_st =
  fs :: "node list"
  out :: bytes
  count :: nat
  log :: "log_line list"

definition keep_dir :: "ustr \<Rightarrow> bool" where
  "keep_dir d \<longleftrightarrow> d \<notin> IGNORED_DIRS"

definition header :: ustr where
  "header = asc ''# Project Codebase Context'' @ [10, 10]"

definition heading :: "ustr \<Rightarrow> ustr" where
  "heading rel = [10, 10] @ asc ''## FILE: '' @ rel @ [10]"

definition fence_open :: ustr where
  "fence_open = asc ''```'' @ [10]"

definition fence_close :: ustr where
  "fence_close = [10] @ asc ''```'' @ [10]"

definition out_write :: "ustr \<Rightarrow> ingest_st \<Rightarrow> (py_error \<times> ingest_st) + ingest_st" where
  "out_write s st =
    (case utf8_encode s of
       None \<Rightarrow> Inl (UnicodeEncodeError, st)
     | Some bs \<Rightarrow> Inr (st\<lparr>out := out st @ bs\<rparr>))"

definition read_into :: "ustr list \<Rightarrow> ustr \<Rightarrow> ingest_st \<Rightarrow> ingest_st" where
  "read_into comps rel st =
    (case read_text (fs st) comps of
       Inl e \<Rightarrow> st\<lparr>log := log st @ [ReadError rel e]\<rparr>
     | Inr t \<Rightarrow>
         (case out_write t st of
            Inl (e, _) \<Rightarrow> st\<lparr>log := log st @ [ReadError rel e]\<rparr>
          | Inr st' \<Rightarrow> st'\<lparr>count := count st' + 1\<rparr>))"

definition process_file :: "ustr list \<Rightarrow> ustr \<Rightarrow> ingest_st \<Rightarrow> (py_error \<times> ingest_st) + ingest_st" where
  "process_file root file st =
    (let ext = py_lower (snd (splitext file)) in
     if ext \<notin> INCLUDED_EXTENSIONS then Inr st
     else if file \<in> set [asc ''ingest.py'', OUTPUT_FILE] then Inr st
     else
       (let comps = root @ [file];
            rel = rel_path comps;
            st1 = (if count st < 3 then st\<lparr>log := log st @ [Reading rel]\<rparr> else st)
        in case out_write (heading rel) st1 of
             Inl r \<Rightarrow> Inl r
           | Inr st2 \<Rightarrow>
               (case out_write fence_open st2 of
                  Inl r \<Rightarrow> Inl r
                | Inr st3 \<Rightarrow> out_write fence_close (read_into comps rel st3))))"

fun process_files :: "ustr list \<Rightarrow> ustr list \<Rightarrow> ingest_st \<Rightarrow> (py_error \<times> ingest_st) + ingest_st" where
  "process_files root [] st = Inr st"
| "process_files root (f # fl) st =
    (case process_file root f st of
       Inl r \<Rightarrow> Inl r
     | Inr st' \<Rightarrow> process_files root fl st')"

fun process_walk :: "(ustr list \<times> ustr list) list \<Rightarrow> ingest_st \<Rightarrow> (py_error \<times> ingest_st) + ingest_st" where
  "process_walk [] st = Inr st"
| "process_walk ((root, files) # ws) st =
    (case process_files root files st of
       Inl r \<Rightarrow> Inl r
     | Inr st' \<Rightarrow> process_walk ws st')"

definition abspath :: "ustr \<Rightarrow> ustr \<Rightarrow> ustr" where
  "abspath cwd p = (if cwd = [slash] then cwd @ p else cwd @ [slash] @ p)"

definition close_output :: "ingest_st \<Rightarrow> ingest_st" where
  "close_output st = st\<lparr>fs := close_write OUT_DIR OUT_NAME (out st) (fs st)\<rparr>"

definition report :: "ustr \<Rightarrow> ingest_st \<Rightarrow> ingest_st" where
  "report cwd st = st\<lparr>log := log st @ [Finished (count st), SavedTo (abspath cwd OUTPUT_FILE)]\<rparr>"

definition prepare_output :: "node list \<Rightarrow> (py_error \<times> node list) + node list" where
  "prepare_output fs0 =
    (case (if lookup fs0 [OUT_DIR, OUT_NAME] \<noteq> None then os_remove OUT_DIR OUT_NAME fs0
           else Inr fs0) of
       Inl e \<Rightarrow> Inl (e, fs0)
     | Inr fs1 \<Rightarrow>
         (case open_write OUT_DIR OUT_NAME fs1 of
            Inl e \<Rightarrow> Inl (e, fs1)
          | Inr fs2 \<Rightarrow> Inr fs2))"

definition generate_context :: "ustr \<Rightarrow> node list \<Rightarrow> (py_error \<times> ingest_st) + ingest_st" where
  "generate_context cwd fs0 =
    (let st0 = \<lparr>fs = fs0, out = [], count = 0, log = [Starting cwd]\<rparr> in
     case prepare_output fs0 of
       Inl (e, fs1) \<Rightarrow> Inl (e, st0\<lparr>fs := fs1\<rparr>)
     | Inr fs2 \<Rightarrow>
         (case out_write header (st0\<lparr>fs := fs2\<rparr>) of
            Inl r \<Rightarrow> Inl r
          | Inr st1 \<Rightarrow>
              (case process_walk (walk keep_dir [] fs2) st1 of
                 Inl (e, st) \<Rightarrow> Inl (e, close_output st)
               | Inr st \<Rightarrow> Inr (report cwd (close_output st)))))"

text \<open>
  The printed lines (lines 21, 46, 55, 58 and 59), each followed by the newline
  \<open>print\<close> adds.  \<open>str(e)\<close> of a caught exception is the operating system's message,
  which names the path it was given (\<open>./\<close> followed by the relative path); it is the
  parameter \<open>msg\<close>.  The script's exit status (lines 61--62) is 0 when
  \<open>generate_context\<close> returns and 1 when an exception escapes it, which Python reports
  with a traceback on standard error.
\<close>

definition render_line :: "(py_error \<Rightarrow> ustr \<Rightarrow> ustr) \<Rightarrow> log_line \<Rightarrow> ustr" where
  "render_line msg l =
    (case l of
       Starting cwd \<Rightarrow> [0x1F680] @ asc '' Starting Ingest... Scanning: '' @ cwd
     | Reading rel \<Rightarrow> asc ''   Reading: '' @ rel
     | ReadError rel e \<Rightarrow>
         asc ''   '' @ [0x26A0, 0xFE0F] @ asc '' Error reading '' @ rel @ asc '': '' @ msg e rel
     | Finished n \<Rightarrow> [0x2705] @ asc '' Finished! Scanned '' @ dec n @ asc '' files.''
     | SavedTo p \<Rightarrow> [0x1F4C4] @ asc '' Saved to: '' @ p)"

definition stdout_text :: "(py_error \<Rightarrow> ustr \<Rightarrow> ustr) \<Rightarrow> log_line list \<Rightarrow> ustr" where
  "stdout_text msg ls = concat (map (\<lambda>l. render_line msg l @ [10]) ls)"

definition script_main :: "ustr \<Rightarrow> node list \<Rightarrow> nat \<times> ingest_st" where
  "script_main cwd es = (case generate_context cwd es of Inl (e, st) \<Rightarrow> (1, st) | Inr st \<Rightarrow> (0, st))"

subsection \<open>Writing text\<close>

lemma map_option_append_Nil [simp]: "map_option ((@) []) x = x"
  by (cases x) simp_all

lemma utf8_encode_append:
  "utf8_encode (s @ t) =
    (case utf8_encode s of None \<Rightarrow> None | Some a \<Rightarrow> map_option ((@) a) (utf8_encode t))"
  by (cases "utf8_encode t"; induction s) (auto split: option.splits)

lemma utf8_encode_ascii:
  "list_all (\<lambda>c. c < 128) s \<Longrightarrow> utf8_encode s = Some (map of_nat s)"
  by (induction s) (auto simp: utf8_encode_cp_def)

lemma ascii_literals [simp]:
  "utf8_encode header = Some (map of_nat header)"
  "utf8_encode fence_open = Some (map of_nat fence_open)"
  "utf8_encode fence_close = Some (map of_nat fence_close)"
  by (rule utf8_encode_ascii, simp add: header_def fence_open_def fence_close_def asc_def)+

lemma out_write_Some: "utf8_encode s = Some bs \<Longrightarrow> out_write s st = Inr (st\<lparr>out := out st @ bs\<rparr>)"
  by (simp add: out_write_def)

lemma out_write_None: "utf8_encode s = None \<Longrightarrow> out_write s st = Inl (UnicodeEncodeError, st)"
  by (simp add: out_write_def)

lemma heading_encode:
  "utf8_encode (heading rel) =
    map_option (\<lambda>bs. map of_nat ([10, 10] @ asc ''## FILE: '') @ bs @ [10]) (utf8_encode rel)"
  by (simp add: heading_def utf8_encode_append utf8_encode_ascii asc_def
      utf8_encode_cp_def split: option.splits)

lemma translate_newlines_set: "set (translate_newlines s) \<subseteq> set s \<union> {10}"
  by (induction s rule: translate_newlines.induct) auto

lemma read_text_scalar: "read_text es p = Inr t \<Longrightarrow> list_all scalar t"
proof -
  assume r: "read_text es p = Inr t"
  then obtain bs u where d: "utf8_decode bs = Some u" and t: "t = translate_newlines u"
    by (auto simp: read_text_def newline_decode_eq split: sum.splits option.splits)
  from utf8_decode_encode [OF d] have "utf8_encode u \<noteq> None" by simp
  then have "list_all scalar u" by (simp add: utf8_encode_None_iff)
  moreover have "scalar 10" by (simp add: scalar_def is_surrogate_def)
  ultimately show ?thesis
    using translate_newlines_set [of u] by (auto simp: t list_all_iff)
qed

end
