(* ===== verification/IngestSpec.thy ===== *)
theory IngestSpec
  imports Ingest
begin

text \<open>
  What \<open>generate_context\<close> promises, stated without its loops: the files it selects
  (\<open>selected\<close>, the two tests of lines 36--39), the paths of the selected files in walk
  order (\<open>selected_paths\<close>), the Markdown section each one contributes
  (\<open>section_of\<close>: heading, opening fence, the text read or nothing when the read
  failed, closing fence) and the effect of one selected file on the state
  (\<open>file_effect\<close>).  \<open>run_paths\<close> is one loop over the selected paths that stops at the
  first path whose heading cannot be encoded.  The refinement lemma
  \<open>process_walk_eq\<close> shows that the two nested loops of the code, with their filters
  and their \<open>try\<close>, are this loop.  The lemmas after it give the loop's frame and
  success conditions, the preparation of the output slot and what a second run finds
  there, the selected paths, what the loop logs and where it stops, that the output is
  always text, and that the run keeps the file system well-formed.
\<close>

definition selected :: "ustr \<Rightarrow> bool" where
  "selected file \<longleftrightarrow>
     py_lower (snd (splitext file)) \<in> INCLUDED_EXTENSIONS \<and> file \<notin> set [asc ''ingest.py'', OUTPUT_FILE]"

definition selected_paths :: "(ustr list \<times> ustr list) list \<Rightarrow> ustr list list" where
  "selected_paths ws = concat (map (\<lambda>(root, files). map (\<lambda>f. root @ [f]) (filter selected files)) ws)"

definition section_of :: "ustr \<Rightarrow> py_error + ustr \<Rightarrow> ustr" where
  "section_of rel r = heading rel @ fence_open @ (case r of Inr t \<Rightarrow> t | Inl _ \<Rightarrow> []) @ fence_close"

definition read_ok :: "node list \<Rightarrow> ustr list \<Rightarrow> bool" where
  "read_ok es p \<longleftrightarrow> (case read_text es p of Inr _ \<Rightarrow> True | Inl _ \<Rightarrow> False)"

definition reading_log :: "ustr \<Rightarrow> ingest_st \<Rightarrow> ingest_st" where
  "reading_log rel st = (if count st < 3 then st\<lparr>log := log st @ [Reading rel]\<rparr> else st)"

definition file_effect :: "ustr list \<Rightarrow> ingest_st \<Rightarrow> ingest_st" where
  "file_effect p st =
    (let rel = rel_path p; r = read_text (fs st) p; st1 = reading_log rel st in
     st1\<lparr>out := out st1 @ the (utf8_encode (section_of rel r)),
         count := count st1 + (if read_ok (fs st) p then 1 else 0),
         log := log st1 @ (case r of Inl e \<Rightarrow> [ReadError rel e] | Inr _ \<Rightarrow> [])\<rparr>)"

definition sections :: "node list \<Rightarrow> ustr list list \<Rightarrow> ustr" where
  "sections es ps = concat (map (\<lambda>p. section_of (rel_path p) (read_text es p)) ps)"

definition prepared :: "node list \<Rightarrow> node list" where
  "prepared es =
    map_dir OUT_DIR (\<lambda>cs. filter (\<lambda>e. node_name e \<noteq> OUT_NAME) cs @ [File OUT_NAME (Some [])]) es"

definition output_slot_ok :: "node list \<Rightarrow> bool" where
  "output_slot_ok es \<longleftrightarrow>
    (case lookup es [OUT_DIR] of
       Some (Dir _ cs) \<Rightarrow>
         (case find (\<lambda>e. node_name e = OUT_NAME) cs of
            None \<Rightarrow> True
          | Some (File _ _) \<Rightarrow> True
          | Some (DirLink _) \<Rightarrow> True
          | Some _ \<Rightarrow> False)
     | _ \<Rightarrow> False)"

definition init_st :: "ustr \<Rightarrow> node list \<Rightarrow> ingest_st" where
  "init_st cwd es = \<lparr>fs = es, out = [], count = 0, log = [Starting cwd]\<rparr>"

fun reading_lines :: "log_line list \<Rightarrow> ustr list" where
  "reading_lines [] = []"
| "reading_lines (Reading r # l) = r # reading_lines l"
| "reading_lines (_ # l) = reading_lines l"

fun run_paths :: "ustr list list \<Rightarrow> ingest_st \<Rightarrow> (py_error \<times> ingest_st) + ingest_st" where
  "run_paths [] st = Inr st"
| "run_paths (p # ps) st =
    (if utf8_encode (rel_path p) = None
     then Inl (UnicodeEncodeError, reading_log (rel_path p) st)
     else run_paths ps (file_effect p st))"

definition res_st :: "(py_error \<times> ingest_st) + ingest_st \<Rightarrow> ingest_st" where
  "res_st r = (case r of Inl (_, st) \<Rightarrow> st | Inr st \<Rightarrow> st)"

primrec is_file_line :: "log_line \<Rightarrow> bool" where
  "is_file_line (Starting _) = False"
| "is_file_line (Reading _) = True"
| "is_file_line (ReadError _ _) = True"
| "is_file_line (Finished _) = False"
| "is_file_line (SavedTo _) = False"

lemma section_encode:
  assumes "utf8_encode rel = Some rb"
    and "case r of Inr t \<Rightarrow> utf8_encode t = Some tb | Inl _ \<Rightarrow> tb = []"
  shows "utf8_encode (section_of rel r) =
    Some (map of_nat ([10, 10] @ asc ''## FILE: '') @ rb @ [10] @ map of_nat fence_open @ tb @
          map of_nat fence_close)"
  using assms by (cases r) (simp_all add: section_of_def utf8_encode_append heading_encode)

lemma reading_log_simps [simp]:
  "fs (reading_log rel st) = fs st" "out (reading_log rel st) = out st"
  "count (reading_log rel st) = count st"
  by (simp_all add: reading_log_def)

lemma process_file_eq:
  "process_file root f st =
    (if \<not> selected f then Inr st
     else if utf8_encode (rel_path (root @ [f])) = None
     then Inl (UnicodeEncodeError, reading_log (rel_path (root @ [f])) st)
     else Inr (file_effect (root @ [f]) st))"
proof -
  let ?p = "root @ [f]"
  let ?rel = "rel_path ?p"
  let ?st1 = "reading_log ?rel st"
  show ?thesis
  proof (cases "selected f")
    case False
    then show ?thesis by (auto simp: process_file_def selected_def Let_def)
  next
    case sel: True
    show ?thesis
    proof (cases "utf8_encode ?rel")
      case None
      then have "utf8_encode (heading ?rel) = None" by (simp add: heading_encode)
      with sel None show ?thesis
        by (simp add: process_file_def selected_def Let_def out_write_None reading_log_def)
    next
      case (Some rb)
      let ?h = "map of_nat ([10, 10] @ asc ''## FILE: '') @ rb @ [10]"
      have h: "utf8_encode (heading ?rel) = Some ?h" using Some by (simp add: heading_encode)
      show ?thesis
      proof (cases "read_text (fs st) ?p")
        case (Inl e)
        then have "utf8_encode (section_of ?rel (read_text (fs st) ?p)) =
            Some (?h @ map of_nat fence_open @ [] @ map of_nat fence_close)"
          using section_encode [OF Some, where tb = "[]"] by simp
        with sel Some h Inl show ?thesis
          by (simp add: process_file_def selected_def Let_def out_write_Some file_effect_def
              read_into_def read_ok_def reading_log_def)
      next
        case (Inr t)
        then obtain tb where tb: "utf8_encode t = Some tb"
          using read_text_scalar utf8_encode_None_iff by fastforce
        with Inr have "utf8_encode (section_of ?rel (read_text (fs st) ?p)) =
            Some (?h @ map of_nat fence_open @ tb @ map of_nat fence_close)"
          using section_encode [OF Some, where tb = tb] by simp
        with sel Some h Inr tb show ?thesis
          by (simp add: process_file_def selected_def Let_def out_write_Some file_effect_def
              read_into_def read_ok_def reading_log_def)
      qed
    qed
  qed
qed

lemma run_paths_append:
  "run_paths (ps @ qs) st = (case run_paths ps st of Inl r \<Rightarrow> Inl r | Inr st' \<Rightarrow> run_paths qs st')"
  by (induction ps arbitrary: st) auto

lemma process_files_eq:
  "process_files root fl st = run_paths (map (\<lambda>f. root @ [f]) (filter selected fl)) st"
  by (induction fl arbitrary: st) (auto simp: process_file_eq)

theorem process_walk_eq: "process_walk ws st = run_paths (selected_paths ws) st"
  by (induction ws arbitrary: st)
     (auto simp: selected_paths_def process_files_eq run_paths_append split: sum.split)

lemma file_effect_fs [simp]: "fs (file_effect p st) = fs st"
  by (simp add: file_effect_def Let_def)

lemma run_paths_fs:
  "run_paths ps st = Inr st' \<Longrightarrow> fs st' = fs st"
  "run_paths ps st = Inl (e, st') \<Longrightarrow> fs st' = fs st"
  by (induction ps arbitrary: st) (auto split: if_splits)

lemma file_effect_out:
  assumes "utf8_encode (rel_path p) = Some rb"
  shows "\<exists>sb. utf8_encode (section_of (rel_path p) (read_text (fs st) p)) = Some sb \<and>
           out (file_effect p st) = out st @ sb"
proof -
  let ?r = "read_text (fs st) p"
  obtain tb where tb: "case ?r of Inr t \<Rightarrow> utf8_encode t = Some tb | Inl _ \<Rightarrow> tb = []"
    using read_text_scalar utf8_encode_None_iff
    by (cases ?r) (fastforce simp: utf8_encode_None_iff)+
  from section_encode [OF assms tb] obtain sb where
    sb: "utf8_encode (section_of (rel_path p) ?r) = Some sb" by blast
  then show ?thesis by (simp add: file_effect_def Let_def)
qed

lemma run_paths_ok:
  assumes "\<forall>p \<in> set ps. utf8_encode (rel_path p) \<noteq> None"
  shows "\<exists>bs st'. utf8_encode (sections (fs st) ps) = Some bs \<and> run_paths ps st = Inr st' \<and>
           fs st' = fs st \<and> out st' = out st @ bs \<and>
           count st' = count st + length (filter (read_ok (fs st)) ps)"
  using assms
proof (induction ps arbitrary: st)
  case Nil
  then show ?case by (simp add: sections_def)
next
  case (Cons p ps)
  from Cons.prems obtain rb where rb: "utf8_encode (rel_path p) = Some rb" by auto
  from file_effect_out [OF rb] obtain sb where
    sb: "utf8_encode (section_of (rel_path p) (read_text (fs st) p)) = Some sb"
      "out (file_effect p st) = out st @ sb" by blast
  from Cons.IH [of "file_effect p st"] Cons.prems obtain bs st' where
    ih: "utf8_encode (sections (fs st) ps) = Some bs" "run_paths ps (file_effect p st) = Inr st'"
      "fs st' = fs st" "out st' = out (file_effect p st) @ bs"
      "count st' = count (file_effect p st) + length (filter (read_ok (fs st)) ps)"
    by auto
  have "count (file_effect p st) = count st + (if read_ok (fs st) p then 1 else 0)"
    by (simp add: file_effect_def Let_def)
  with ih rb sb show ?case
    by (simp add: sections_def utf8_encode_append)
qed

lemma run_paths_error:
  assumes "\<exists>p \<in> set ps. utf8_encode (rel_path p) = None"
  shows "\<exists>st'. run_paths ps st = Inl (UnicodeEncodeError, st')"
  using assms by (induction ps arbitrary: st) auto

subsection \<open>Preparing the output file\<close>

lemma lookup_two:
  "lookup es [d, f] =
    (case find (\<lambda>e. node_name e = d) es of Some (Dir _ cs) \<Rightarrow> find (\<lambda>e. node_name e = f) cs | _ \<Rightarrow> None)"
  by (simp split: option.split node.split)

lemma find_filter_same: "find (\<lambda>e. node_name e = f) (filter (\<lambda>e. node_name e \<noteq> f) cs) = None"
  by (induction cs) auto

lemma find_filter_app:
  "find (\<lambda>e. node_name e = f) (filter (\<lambda>e. node_name e \<noteq> f) cs @ ys) = find (\<lambda>e. node_name e = f) ys"
  by (induction cs) auto

lemma prepare_output_slot:
  assumes dist: "distinct (map node_name es)" and ok: "output_slot_ok es"
  shows "prepare_output es = Inr (prepared es)"
proof -
  let ?g = "\<lambda>cs. filter (\<lambda>e. node_name e \<noteq> OUT_NAME) cs @ [File OUT_NAME (Some [])]"
  from ok obtain x cs where fd: "find (\<lambda>e. node_name e = OUT_DIR) es = Some (Dir x cs)"
    by (auto simp: output_slot_ok_def split: option.splits node.splits)
  then have x: "x = OUT_DIR" using find_SomeD by fastforce
  show ?thesis
  proof (cases "find (\<lambda>e. node_name e = OUT_NAME) cs")
    case None
    then have flt: "filter (\<lambda>e. node_name e \<noteq> OUT_NAME) cs = cs"
      by (auto simp: find_None_iff intro: filter_True)
    have "map_dir OUT_DIR (\<lambda>cs. cs @ [File OUT_NAME (Some [])]) es = map_dir OUT_DIR ?g es"
    proof (rule map_dir_cong [OF dist])
      show "find (\<lambda>e. node_name e = OUT_DIR) es = Some (Dir OUT_DIR cs)" using fd x by simp
      show "cs @ [File OUT_NAME (Some [])] = ?g cs" by (subst flt) (rule refl)
    qed
    with fd x None show ?thesis
      by (simp add: prepare_output_def lookup_two open_write_def prepared_def)
  next
    case (Some e)
    with ok fd x have e: "(\<exists>c. e = File OUT_NAME c) \<or> e = DirLink OUT_NAME"
      using find_SomeD [OF Some]
      by (cases e) (auto simp: output_slot_ok_def)
    let ?fs1 = "map_dir OUT_DIR (filter (\<lambda>e. node_name e \<noteq> OUT_NAME)) es"
    have rm: "os_remove OUT_DIR OUT_NAME es = Inr ?fs1"
      using e fd x Some by (auto simp: os_remove_def lookup_two)
    have "find (\<lambda>e. node_name e = OUT_DIR) ?fs1 =
        Some (Dir OUT_DIR (filter (\<lambda>e. node_name e \<noteq> OUT_NAME) cs))"
      using fd x by (simp add: find_map_dir)
    then have "open_write OUT_DIR OUT_NAME ?fs1 =
        Inr (map_dir OUT_DIR (\<lambda>cs. cs @ [File OUT_NAME (Some [])]) ?fs1)"
      by (simp add: open_write_def find_filter_same)
    with rm fd x Some show ?thesis
      by (simp add: prepare_output_def lookup_two prepared_def map_dir_comp comp_def)
  qed
qed

lemma prepare_output_Inr:
  assumes dist: "distinct (map node_name es)" and r: "prepare_output es = Inr fs2"
  shows "(output_slot_ok es \<and> fs2 = prepared es) \<or>
         (find (\<lambda>e. node_name e = OUT_DIR) es = Some (DirLink OUT_DIR) \<and> fs2 = es)"
proof (cases "find (\<lambda>e. node_name e = OUT_DIR) es")
  case None
  with r show ?thesis by (simp add: prepare_output_def lookup_two open_write_def)
next
  case (Some e)
  then have name: "node_name e = OUT_DIR" using find_SomeD by fastforce
  show ?thesis
  proof (cases e)
    case (File n c)
    with r Some show ?thesis by (simp add: prepare_output_def lookup_two open_write_def)
  next
    case (Dir n cs)
    show ?thesis
    proof (cases "output_slot_ok es")
      case True
      with r prepare_output_slot [OF dist True] show ?thesis by simp
    next
      case False
      with Some Dir name obtain x where "find (\<lambda>e. node_name e = OUT_NAME) cs = Some x"
        "\<not> is_dir_entry x \<or> x \<noteq> DirLink (node_name x)"
        by (auto simp: output_slot_ok_def split: option.splits node.splits)
      with r Some Dir False show ?thesis
        by (cases x) (auto simp: prepare_output_def lookup_two os_remove_def output_slot_ok_def)
    qed
  next
    case (DirLink n)
    with r Some name show ?thesis by (simp add: prepare_output_def lookup_two open_write_def)
  next
    case (Locked n)
    with r Some show ?thesis by (simp add: prepare_output_def lookup_two open_write_def)
  qed
qed

lemma append_file_filter:
  "append_file f b (filter (\<lambda>e. node_name e \<noteq> f) cs) = filter (\<lambda>e. node_name e \<noteq> f) cs"
  by (induction cs) (auto simp: append_file_def split: node.splits option.splits)

lemma append_file_app: "append_file f b (xs @ ys) = append_file f b xs @ append_file f b ys"
  by (simp add: append_file_def)

lemma close_prepared:
  "close_write OUT_DIR OUT_NAME b (prepared es) =
    map_dir OUT_DIR (\<lambda>cs. filter (\<lambda>e. node_name e \<noteq> OUT_NAME) cs @ [File OUT_NAME (Some b)]) es"
proof -
  have "append_file OUT_NAME b \<circ> (\<lambda>cs. filter (\<lambda>e. node_name e \<noteq> OUT_NAME) cs @ [File OUT_NAME (Some [])]) =
      (\<lambda>cs. filter (\<lambda>e. node_name e \<noteq> OUT_NAME) cs @ [File OUT_NAME (Some b)])"
    by (rule ext) (simp add: append_file_app append_file_filter, simp add: append_file_def)
  then show ?thesis by (simp add: close_write_def prepared_def map_dir_comp)
qed

lemma prepare_close_prepared:
  assumes dist: "distinct (map node_name es)" and ok: "output_slot_ok es"
  shows "prepare_output (close_write OUT_DIR OUT_NAME b (prepared es)) = Inr (prepared es)"
proof -
  let ?g = "\<lambda>cs. filter (\<lambda>e. node_name e \<noteq> OUT_NAME) cs @ [File OUT_NAME (Some [])]"
  let ?h = "\<lambda>cs. filter (\<lambda>e. node_name e \<noteq> OUT_NAME) cs @ [File OUT_NAME (Some b)]"
  have hg: "?g \<circ> ?h = ?g" by (rule ext) simp
  let ?es' = "map_dir OUT_DIR ?h es"
  have c: "close_write OUT_DIR OUT_NAME b (prepared es) = ?es'" by (rule close_prepared)
  from ok obtain x cs where fd: "find (\<lambda>e. node_name e = OUT_DIR) es = Some (Dir x cs)"
    by (auto simp: output_slot_ok_def split: option.splits node.splits)
  then have x: "x = OUT_DIR" using find_SomeD by fastforce
  have ok': "output_slot_ok ?es'"
    using fd x by (simp add: output_slot_ok_def find_map_dir find_filter_app)
  have "prepare_output ?es' = Inr (prepared ?es')"
    by (rule prepare_output_slot) (use dist ok' in simp_all)
  also have "prepared ?es' = prepared es"
    by (simp add: prepared_def map_dir_comp hg)
  finally show ?thesis using c by simp
qed

lemma close_dirlink:
  assumes "distinct (map node_name es)" "find (\<lambda>e. node_name e = OUT_DIR) es = Some (DirLink OUT_DIR)"
  shows "close_write OUT_DIR OUT_NAME b es = es"
proof -
  have "Dir OUT_DIR cs \<notin> set es" for cs
  proof
    assume "Dir OUT_DIR cs \<in> set es"
    from find_name_distinct [OF assms(1) this] assms(2) show False by simp
  qed
  then show ?thesis by (simp add: close_write_def map_dir_absent)
qed

lemma output_slot_dir:
  assumes "output_slot_ok es"
  obtains cs where "find (\<lambda>e. node_name e = OUT_DIR) es = Some (Dir OUT_DIR cs)"
    and "\<forall>n cs'. find (\<lambda>e. node_name e = OUT_NAME) cs \<noteq> Some (Dir n cs')"
proof -
  from assms obtain x cs where fd: "find (\<lambda>e. node_name e = OUT_DIR) es = Some (Dir x cs)"
    by (auto simp: output_slot_ok_def split: option.splits node.splits)
  moreover have "x = OUT_DIR" using find_SomeD [OF fd] by simp
  moreover have "\<forall>n cs'. find (\<lambda>e. node_name e = OUT_NAME) cs \<noteq> Some (Dir n cs')"
    using assms fd by (auto simp: output_slot_ok_def)
  ultimately show ?thesis using that by blast
qed

lemma lookup_close_prepared_out:
  assumes "output_slot_ok es"
  shows "lookup (close_write OUT_DIR OUT_NAME b (prepared es)) [OUT_DIR, OUT_NAME] =
    Some (File OUT_NAME (Some b))"
proof -
  from assms obtain cs where "find (\<lambda>e. node_name e = OUT_DIR) es = Some (Dir OUT_DIR cs)"
    by (rule output_slot_dir)
  then show ?thesis by (simp add: close_prepared lookup_two find_map_dir find_filter_app)
qed

lemma lookup_same_find:
  "find (\<lambda>e. node_name e = m) xs = find (\<lambda>e. node_name e = m) ys \<Longrightarrow> lookup xs (m # q) = lookup ys (m # q)"
  by (cases q) simp_all

lemma lookup_close_prepared_frame:
  assumes ok: "output_slot_ok es" and p: "p \<noteq> [OUT_DIR, OUT_NAME]" and l: "lookup es p = Some (File n c)"
  shows "lookup (close_write OUT_DIR OUT_NAME b (prepared es)) p = Some (File n c)"
proof -
  let ?h = "\<lambda>cs. filter (\<lambda>e. node_name e \<noteq> OUT_NAME) cs @ [File OUT_NAME (Some b)]"
  from ok obtain cs where fd: "find (\<lambda>e. node_name e = OUT_DIR) es = Some (Dir OUT_DIR cs)"
    and nd: "\<forall>n cs'. find (\<lambda>e. node_name e = OUT_NAME) cs \<noteq> Some (Dir n cs')"
    by (rule output_slot_dir)
  obtain a q where pq: "p = a # q" using l by (cases p) auto
  show ?thesis
  proof (cases q)
    case Nil
    with l show ?thesis by (simp add: pq close_prepared find_map_dir)
  next
    case (Cons m r)
    with l pq obtain y cs' where fa: "find (\<lambda>e. node_name e = a) es = Some (Dir y cs')"
      and l': "lookup cs' (m # r) = Some (File n c)"
      by (auto split: option.splits node.splits)
    have y: "y = a" using find_SomeD [OF fa] by simp
    show ?thesis
    proof (cases "a = OUT_DIR")
      case False
      with fa l' Cons show ?thesis by (simp add: pq y close_prepared find_map_dir)
    next
      case True
      with fd fa y have cs': "cs' = cs" by simp
      have "m \<noteq> OUT_NAME"
      proof
        assume m: "m = OUT_NAME"
        with p pq Cons True have "r \<noteq> []" by auto
        then obtain r1 rs where "r = r1 # rs" by (cases r) auto
        with l' cs' m nd show False by (auto split: option.splits node.splits)
      qed
      then have "find (\<lambda>e. node_name e = m) (?h cs) = find (\<lambda>e. node_name e = m) cs"
        by (induction cs) auto
      then have "lookup (?h cs) (m # r) = lookup cs (m # r)" by (rule lookup_same_find)
      with fa l' Cons True show ?thesis by (simp add: pq y cs' close_prepared find_map_dir)
    qed
  qed
qed

lemma generate_context_eq:
  "generate_context cwd es =
    (case prepare_output es of
       Inl (e, fs1) \<Rightarrow> Inl (e, init_st cwd fs1)
     | Inr fs2 \<Rightarrow>
         (case run_paths (selected_paths (walk keep_dir [] fs2))
                 ((init_st cwd fs2)\<lparr>out := map of_nat header\<rparr>) of
            Inl (e, st) \<Rightarrow> Inl (e, close_output st)
          | Inr st \<Rightarrow> Inr (report cwd (close_output st))))"
  by (simp add: generate_context_def init_st_def process_walk_eq out_write_Some
      split: sum.split prod.split)

lemma generate_context_slot_Inr:
  assumes "wf_fs es" and "output_slot_ok es" and "generate_context cwd es = Inr st"
  obtains st1 where
    "run_paths (selected_paths (walk keep_dir [] (prepared es)))
       ((init_st cwd (prepared es))\<lparr>out := map of_nat header\<rparr>) = Inr st1"
    and "st = report cwd (close_output st1)" and "fs st1 = prepared es"
proof -
  have "distinct (map node_name es)" using assms(1) by simp
  from prepare_output_slot [OF this assms(2)] assms(3) obtain st1 where
    r: "run_paths (selected_paths (walk keep_dir [] (prepared es)))
       ((init_st cwd (prepared es))\<lparr>out := map of_nat header\<rparr>) = Inr st1"
    and "st = report cwd (close_output st1)"
    by (auto simp: generate_context_eq split: sum.splits prod.splits)
  moreover from run_paths_fs(1) [OF r] have "fs st1 = prepared es" by (simp add: init_st_def)
  ultimately show ?thesis using that by blast
qed

lemma generate_context_Inr:
  assumes "generate_context cwd es = Inr st"
  obtains fs2 st1 where "prepare_output es = Inr fs2"
    and "run_paths (selected_paths (walk keep_dir [] fs2)) ((init_st cwd fs2)\<lparr>out := map of_nat header\<rparr>) = Inr st1"
    and "st = report cwd (close_output st1)"
  using assms by (auto simp: generate_context_eq split: sum.splits prod.splits)

subsection \<open>Selected paths\<close>

lemma selected_paths_mem:
  "p \<in> set (selected_paths ws) \<longleftrightarrow>
    (\<exists>r fl f. (r, fl) \<in> set ws \<and> f \<in> set fl \<and> selected f \<and> p = r @ [f])"
  by (auto simp: selected_paths_def)

lemma selected_paths_distinct_gen:
  "distinct (map fst ws) \<Longrightarrow> (\<And>r fl. (r, fl) \<in> set ws \<Longrightarrow> distinct fl) \<Longrightarrow>
   distinct (selected_paths ws)"
proof (induction ws)
  case Nil
  then show ?case by (simp add: selected_paths_def)
next
  case (Cons w ws)
  obtain r fl where w: "w = (r, fl)" by (cases w)
  have "distinct (map (\<lambda>f. r @ [f]) (filter selected fl))"
    using Cons.prems(2) [of r fl] by (simp add: w distinct_map inj_on_def)
  moreover have "distinct (selected_paths ws)" using Cons.prems by (intro Cons.IH) auto
  moreover have "set (map (\<lambda>f. r @ [f]) (filter selected fl)) \<inter> set (selected_paths ws) = {}"
    using Cons.prems(1) by (force simp: w selected_paths_mem)
  moreover have "selected_paths (w # ws) = map (\<lambda>f. r @ [f]) (filter selected fl) @ selected_paths ws"
    by (simp add: w selected_paths_def)
  ultimately show ?case by (simp only: distinct_append)
qed

lemma fsdecode_valid_no_slash: "valid_name n \<Longrightarrow> slash \<notin> set (fsdecode n)"
proof
  assume v: "valid_name n" and "slash \<in> set (fsdecode n)"
  from fsdecode_ascii_mem [OF this(2)] have "(47 :: byte) \<in> set n" by (simp add: slash_def)
  with v show False by (simp add: valid_name_def)
qed

lemma selected_path_components:
  assumes "wf_fs es" and "p \<in> set (selected_paths (walk keep_dir [] es))"
  shows "p \<noteq> [] \<and> (\<forall>c \<in> set p. slash \<notin> set c)"
proof -
  from assms(2) obtain r fl f where w: "(r, fl) \<in> set (walk keep_dir [] es)" and f: "f \<in> set fl"
    and p: "p = r @ [f]"
    by (auto simp: selected_paths_mem)
  from walk_sound [OF assms(1) w f] obtain ns n c where
    pn: "p = map fsdecode (ns @ [n])" and l: "lookup es (ns @ [n]) = Some (File n c)"
    by (auto simp: p)
  from lookup_valid_names [OF assms(1) l] fsdecode_valid_no_slash show ?thesis
    by (auto simp: pn)
qed

lemma fsdecode_ascii: "list_all (\<lambda>b. unat b < 128) bs \<Longrightarrow> fsdecode bs = map unat bs"
  by (induction bs) (simp_all add: utf8_decode_one_ascii)

lemma output_components:
  "map fsdecode [OUT_DIR, OUT_NAME] = [asc ''notebookLM'', asc ''project_context.md'']"
  "rel_path [asc ''notebookLM'', asc ''project_context.md''] = OUTPUT_FILE"
  by code_simp+

lemma rel_path_scalar:
  "list_all scalar (rel_path cs) \<longleftrightarrow> (\<forall>c \<in> set cs. list_all scalar c)"
  by (induction cs rule: rel_path.induct) (auto simp: scalar_def is_surrogate_def slash_def)

text \<open>
  C10.  The heading of a walked path can be written exactly when every component of its
  raw name is valid UTF-8: a single undecodable component makes the heading's
  \<open>outfile.write\<close> raise \<open>UnicodeEncodeError\<close>.
\<close>

lemma rel_path_encode_None:
  "utf8_encode (rel_path (map fsdecode ns)) = None \<longleftrightarrow> (\<exists>n \<in> set ns. utf8_decode n = None)"
  by (simp add: utf8_encode_None_iff rel_path_scalar fsdecode_scalar_iff)

subsection \<open>What the loop logs and where it stops\<close>

lemma reading_lines_append [simp]: "reading_lines (a @ b) = reading_lines a @ reading_lines b"
  by (induction a rule: reading_lines.induct) auto

lemma file_effect_log:
  "log (file_effect p st) =
    log st @ (if count st < 3 then [Reading (rel_path p)] else []) @
    (case read_text (fs st) p of Inl e \<Rightarrow> [ReadError (rel_path p) e] | Inr _ \<Rightarrow> [])"
  by (simp add: file_effect_def Let_def reading_log_def)

lemma file_effect_count:
  "count (file_effect p st) = count st + (if read_ok (fs st) p then 1 else 0)"
  by (simp add: file_effect_def Let_def)

lemma run_paths_log_mono:
  "run_paths ps st = Inr st' \<Longrightarrow> \<exists>l. log st' = log st @ l \<and> list_all is_file_line l"
  by (induction ps arbitrary: st) (fastforce simp: file_effect_log split: if_splits sum.splits)+

lemma run_paths_read_error:
  "run_paths ps st = Inr st' \<Longrightarrow> p \<in> set ps \<Longrightarrow> read_text (fs st) p = Inl e \<Longrightarrow>
   ReadError (rel_path p) e \<in> set (log st')"
proof (induction ps arbitrary: st)
  case Nil
  then show ?case by simp
next
  case (Cons q qs)
  from Cons.prems(1) have r: "run_paths qs (file_effect q st) = Inr st'"
    by (simp split: if_splits)
  show ?case
  proof (cases "p = q")
    case True
    with Cons.prems(3) have "ReadError (rel_path p) e \<in> set (log (file_effect q st))"
      by (simp add: file_effect_log)
    with run_paths_log_mono [OF r] show ?thesis by auto
  next
    case False
    with Cons.prems(2,3) Cons.IH [OF r] show ?thesis by simp
  qed
qed

lemma run_paths_all_fail:
  "\<forall>p \<in> set ps. utf8_encode (rel_path p) \<noteq> None \<and> \<not> read_ok (fs st) p \<Longrightarrow> count st < 3 \<Longrightarrow>
   run_paths ps st = Inr st' \<Longrightarrow>
   count st' = count st \<and> reading_lines (log st') = reading_lines (log st) @ map rel_path ps"
proof (induction ps arbitrary: st)
  case Nil
  then show ?case by simp
next
  case (Cons q qs)
  then have "\<not> read_ok (fs st) q" and r: "run_paths qs (file_effect q st) = Inr st'" by auto
  then have c: "count (file_effect q st) = count st" by (simp add: file_effect_count)
  have "reading_lines (log (file_effect q st)) = reading_lines (log st) @ [rel_path q]"
    using Cons.prems(2) by (simp add: file_effect_log split: sum.split)
  with Cons.IH [OF _ _ r] Cons.prems c show ?case by simp
qed

lemma run_paths_crash:
  assumes "\<forall>q \<in> set qs. utf8_encode (rel_path q) \<noteq> None" and "utf8_encode (rel_path p) = None"
  shows "\<exists>bs st'. utf8_encode (sections (fs st) qs) = Some bs \<and>
           run_paths (qs @ p # rs) st = Inl (UnicodeEncodeError, st') \<and>
           fs st' = fs st \<and> out st' = out st @ bs"
proof -
  from run_paths_ok [OF assms(1), of st] obtain bs st1 where
    r: "utf8_encode (sections (fs st) qs) = Some bs" "run_paths qs st = Inr st1" "fs st1 = fs st"
       "out st1 = out st @ bs"
    by blast
  with assms(2) show ?thesis by (simp add: run_paths_append)
qed

lemma run_paths_all_ok:
  "\<forall>p \<in> set ps. utf8_encode (rel_path p) \<noteq> None \<and> read_ok (fs st) p \<Longrightarrow>
   run_paths ps st = Inr st' \<Longrightarrow>
   count st' = count st + length ps \<and>
   reading_lines (log st') = reading_lines (log st) @ take (3 - count st) (map rel_path ps)"
proof (induction ps arbitrary: st)
  case Nil
  then show ?case by simp
next
  case (Cons q qs)
  then have ok: "read_ok (fs st) q" and r: "run_paths qs (file_effect q st) = Inr st'" by auto
  then have c: "count (file_effect q st) = Suc (count st)" by (simp add: file_effect_count)
  from ok have "reading_lines (log (file_effect q st)) =
      reading_lines (log st) @ (if count st < 3 then [rel_path q] else [])"
    by (simp add: file_effect_log read_ok_def split: sum.splits)
  moreover have "(if count st < 3 then [rel_path q] else []) @ take (3 - Suc (count st)) (map rel_path qs) =
      take (3 - count st) (map rel_path (q # qs))"
    by (cases "count st < 3") (simp_all add: take_Cons')
  ultimately show ?case using Cons.IH [OF _ r] Cons.prems c by simp
qed

subsection \<open>The output is always text\<close>

lemma run_paths_out_text:
  "\<exists>t. utf8_encode t = Some (out st) \<Longrightarrow> \<exists>t. utf8_encode t = Some (out (res_st (run_paths ps st)))"
proof (induction ps arbitrary: st)
  case Nil
  then show ?case by (simp add: res_st_def)
next
  case (Cons p ps)
  show ?case
  proof (cases "utf8_encode (rel_path p)")
    case None
    with Cons.prems show ?thesis by (simp add: res_st_def)
  next
    case (Some rb)
    from file_effect_out [OF Some, of st] obtain sb where
      sb: "utf8_encode (section_of (rel_path p) (read_text (fs st) p)) = Some sb"
      "out (file_effect p st) = out st @ sb" by blast
    from Cons.prems obtain t where "utf8_encode t = Some (out st)" ..
    with sb have "utf8_encode (t @ section_of (rel_path p) (read_text (fs st) p)) =
        Some (out (file_effect p st))" by (simp add: utf8_encode_append)
    then have "\<exists>t. utf8_encode t = Some (out (file_effect p st))" ..
    with Cons.IH Some show ?thesis by simp
  qed
qed


end
