(* ===== verification/IngestRun.thy ===== *)
theory IngestRun
  imports IngestSpec
begin

text \<open>
  A small-step semantics of \<open>generate_context\<close> (lines 20--59 of \<open>src/ingest.py\<close>).
  A run is in one of four phases: about to prepare the output file (\<open>Start\<close>), in the
  loop with the selected paths still to do (\<open>Loop\<close>), finished (\<open>Done\<close>), or stopped by an
  exception (\<open>Failed\<close>).  One step prepares the output (lines 23--29), handles one selected
  file (lines 41--56, as \<open>IngestSpec.file_effect\<close>), stops at a heading that cannot be
  encoded (line 48, outside the \<open>try\<close>), or closes the output and prints the report
  (lines 58--59).  The relation is deterministic, and the one final state a run from
  \<open>Start\<close> reaches is the outcome of the function \<open>generate_context\<close>.
\<close>

datatype phase =
    Start ustr "node list"
  | Loop ustr "ustr list list" ingest_st
  | Done ingest_st
  | Failed py_error ingest_st

inductive step :: "phase \<Rightarrow> phase \<Rightarrow> bool" where
  prepare_fail: "prepare_output es = Inl (e, fs1) \<Longrightarrow> step (Start cwd es) (Failed e (init_st cwd fs1))"
| prepare_ok: "prepare_output es = Inr fs2 \<Longrightarrow>
    step (Start cwd es)
      (Loop cwd (selected_paths (walk keep_dir [] fs2)) ((init_st cwd fs2)\<lparr>out := map of_nat header\<rparr>))"
| next_file: "utf8_encode (rel_path p) \<noteq> None \<Longrightarrow> step (Loop cwd (p # ps) st) (Loop cwd ps (file_effect p st))"
| crash: "utf8_encode (rel_path p) = None \<Longrightarrow>
    step (Loop cwd (p # ps) st) (Failed UnicodeEncodeError (close_output (reading_log (rel_path p) st)))"
| finish: "step (Loop cwd [] st) (Done (report cwd (close_output st)))"

inductive_cases step_DoneE [elim!]: "step (Done st) q"
inductive_cases step_FailedE [elim!]: "step (Failed e st) q"
inductive_cases step_StartE: "step (Start cwd es) q"
inductive_cases step_LoopE: "step (Loop cwd ps st) q"

primrec is_final :: "phase \<Rightarrow> bool" where
  "is_final (Start cwd es) = False"
| "is_final (Loop cwd ps st) = False"
| "is_final (Done st) = True"
| "is_final (Failed e st) = True"

definition phase_of :: "(py_error \<times> ingest_st) + ingest_st \<Rightarrow> phase" where
  "phase_of r = (case r of Inl (e, st) \<Rightarrow> Failed e st | Inr st \<Rightarrow> Done st)"

definition loop_exit :: "ustr \<Rightarrow> (py_error \<times> ingest_st) + ingest_st \<Rightarrow> phase" where
  "loop_exit cwd r =
    (case r of Inl (e, st) \<Rightarrow> Failed e (close_output st) | Inr st \<Rightarrow> Done (report cwd (close_output st)))"

lemma step_deterministic: "step a b \<Longrightarrow> step a c \<Longrightarrow> b = c"
  by (induction rule: step.induct) (auto elim: step_StartE step_LoopE)

lemma final_no_step: "is_final q \<Longrightarrow> \<not> step q x"
  by (cases q) auto

lemma is_final_phase_of: "is_final (phase_of r)"
  by (cases r) (auto simp: phase_of_def)

lemma loop_steps: "step\<^sup>*\<^sup>* (Loop cwd ps st) (loop_exit cwd (run_paths ps st))"
proof (induction ps arbitrary: st)
  case Nil
  show ?case by (auto simp: loop_exit_def intro: step.finish)
next
  case (Cons p ps)
  show ?case
  proof (cases "utf8_encode (rel_path p) = None")
    case True
    then show ?thesis by (auto simp: loop_exit_def intro: step.crash)
  next
    case False
    then have s: "step (Loop cwd (p # ps) st) (Loop cwd ps (file_effect p st))" by (rule step.next_file)
    have r: "run_paths (p # ps) st = run_paths ps (file_effect p st)"
      by (simp only: run_paths.simps False if_False)
    show ?thesis unfolding r by (rule converse_rtranclp_into_rtranclp [OF s Cons.IH])
  qed
qed

lemma generate_context_steps: "step\<^sup>*\<^sup>* (Start cwd es) (phase_of (generate_context cwd es))"
proof (cases "prepare_output es")
  case (Inl r)
  then obtain e fs1 where "prepare_output es = Inl (e, fs1)" by (cases r) auto
  then show ?thesis by (auto simp: generate_context_eq phase_of_def intro: step.prepare_fail)
next
  case (Inr fs2)
  let ?l = "Loop cwd (selected_paths (walk keep_dir [] fs2)) ((init_st cwd fs2)\<lparr>out := map of_nat header\<rparr>)"
  have "step (Start cwd es) ?l" using Inr by (rule step.prepare_ok)
  moreover have "phase_of (generate_context cwd es) =
      loop_exit cwd (run_paths (selected_paths (walk keep_dir [] fs2))
        ((init_st cwd fs2)\<lparr>out := map of_nat header\<rparr>))"
    using Inr by (simp add: generate_context_eq phase_of_def loop_exit_def split: sum.split prod.split)
  ultimately show ?thesis using loop_steps by (metis converse_rtranclp_into_rtranclp)
qed

text \<open>
  C25.  The small-step semantics refines to the function: the final states a run from
  \<open>Start cwd es\<close> can reach are exactly one, the outcome of \<open>generate_context cwd es\<close>.
\<close>

theorem generate_context_small_step:
  "(step\<^sup>*\<^sup>* (Start cwd es) q \<and> is_final q) \<longleftrightarrow> q = phase_of (generate_context cwd es)"
proof
  assume "step\<^sup>*\<^sup>* (Start cwd es) q \<and> is_final q"
  then have r: "step\<^sup>*\<^sup>* (Start cwd es) q" and f: "is_final q" by auto
  show "q = phase_of (generate_context cwd es)"
    by (rule rtranclp_det_final [where R = step, OF step_deterministic r generate_context_steps])
      (simp_all add: final_no_step f is_final_phase_of)
next
  assume "q = phase_of (generate_context cwd es)"
  then show "step\<^sup>*\<^sup>* (Start cwd es) q \<and> is_final q"
    using generate_context_steps is_final_phase_of by simp
qed

end
