(* ===== verification/Spec2Isabelle.thy ===== *)
theory Spec2Isabelle
  imports IngestRun
begin

text \<open>
  \<^bold>\<open>A verification of \<open>src/ingest.py\<close>.\<close>

  \<^bold>\<open>The program.\<close>  \<open>src/ingest.py\<close> is one function, \<open>generate_context\<close>
  (lines 20--59), run by the \<open>__main__\<close> guard.  It prints a start line, removes
  \<open>notebookLM/project_context.md\<close> if it exists (lines 23--25), opens it for writing
  (line 28), writes a header (line 29) and walks \<open>'.'\<close> top-down with \<open>os.walk\<close>
  (line 31), pruning the directories named in \<open>IGNORED_DIRS\<close> (line 33).  For every
  file whose lowercased \<open>os.path.splitext\<close> extension is in \<open>INCLUDED_EXTENSIONS\<close>
  and whose name is not \<open>ingest.py\<close> (lines 35--39), it prints a progress line while
  fewer than 3 files have been read (lines 44--46), writes a Markdown heading with the
  relative path and an opening fence (lines 48--49), copies the file's text inside a
  \<open>try\<close> that logs and swallows any exception (lines 50--55), and closes the fence
  (line 56).  At the end it prints the count and the absolute output path (lines 58--59).

  \<^bold>\<open>Theories and what they model.\<close>
  \<^item> \<open>Prelude\<close>: the model's types (\<open>byte = 8 word\<close>, \<open>bytes\<close>, Python text as a
    list of code points \<open>ustr\<close>), the exceptions the program can meet
    (\<open>py_error\<close>), and shared arithmetic on bytes and base-64 digits.
  \<^item> \<open>Utf8\<close>: CPython's strict UTF-8 decoder (\<open>utf8_decode\<close>, one character at a
    time by \<open>utf8_decode_one\<close>) and encoder (\<open>utf8_encode\<close>), used by \<open>f.read()\<close>
    and by \<open>outfile.write\<close>; \<open>os.fsdecode\<close>/\<open>os.fsencode\<close> with
    \<open>surrogateescape\<close> (\<open>fsdecode\<close>, \<open>fsencode\<close>), used by \<open>os.walk\<close> on names and
    by \<open>open\<close> on paths.  The codec is a bijection between valid UTF-8 and texts of
    Unicode scalar values, and \<open>fsencode\<close> inverts \<open>fsdecode\<close>.
  \<^item> \<open>PyPath\<close>: \<open>os.path.splitext\<close> as CPython's \<open>genericpath._splitext\<close>
    (\<open>rfind\<close>, the leading-dot loop \<open>has_non_dot\<close>, \<open>splitext\<close>), \<open>str.lower\<close>
    (\<open>py_lower\<close>), and \<open>os.path.relpath(os.path.join(root, file), '.')\<close>
    (\<open>rel_path\<close>), with the facts about base names and dotfiles, and
    \<open>str.split('/')\<close> (\<open>split_path\<close>), which recovers the components of a path.
  \<^item> \<open>FsWalk\<close>: the file system as a tree of \<open>node\<close>s (\<open>File\<close>, \<open>Dir\<close>, a link to a
    directory \<open>DirLink\<close>, an unlistable directory \<open>Locked\<close>), \<open>os.walk\<close> with the
    caller's pruning as a parameter (\<open>walk\<close>), path resolution (\<open>lookup\<close>), reading
    bytes (\<open>read_bytes\<close>), and the output-file operations \<open>os_remove\<close>,
    \<open>open_write\<close> (create or truncate) and \<open>close_write\<close> (the buffered writes reach
    the file at close).  Soundness and completeness of the walk.
  \<^item> \<open>TextIO\<close>: \<open>open(..., 'r', encoding='utf-8').read()\<close> (\<open>read_text\<close>): read the
    bytes, decode strictly, then universal newlines as CPython's two \<open>str.replace\<close>
    calls (\<open>newline_decode\<close>, via \<open>py_replace\<close>), shown equal to a one-pass
    translation.
  \<^item> \<open>Ingest\<close>: the program itself, line by line.  The state is the record
    \<open>ingest_st\<close>: \<open>fs\<close> the file system, \<open>out\<close> the bytes written to \<open>outfile\<close>,
    \<open>count\<close>, and \<open>log\<close> the printed lines as \<open>log_line\<close> values.  Every write is
    \<open>out_write\<close>, which encodes and raises \<open>UnicodeEncodeError\<close>; the \<open>try\<close> is
    \<open>read_into\<close>; the loop body is \<open>process_file\<close>, the inner loop
    \<open>process_files\<close>, the outer loop \<open>process_walk\<close>; lines 23--28 are
    \<open>prepare_output\<close>, leaving the \<open>with\<close> block is \<open>close_output\<close>, lines 58--59
    are \<open>report\<close>, and \<open>generate_context\<close> composes them.  A raised exception is the
    value \<open>Inl (e, st)\<close> carrying the state at that moment, so the output a crash leaves
    behind is observable.
  \<^item> \<open>IngestSpec\<close>: what the program promises, without its loops: \<open>selected\<close>,
    \<open>selected_paths\<close>, \<open>section_of\<close>, \<open>sections\<close>, the prepared file system
    \<open>prepared\<close>, the condition \<open>output_slot_ok\<close> under which preparation succeeds,
    and one loop \<open>run_paths\<close>; the refinement of the code's nested loops into it, the
    frame, success, crash and logging lemmas of the loop, and the lemmas on the output
    slot that make a second run see the same file system.
  \<^item> \<open>IngestRun\<close>: the same run as a small-step semantics, an \<^theory_text>\<open>inductive\<close>
    relation \<open>step\<close> on the phases \<open>Start\<close>, \<open>Loop\<close>, \<open>Done\<close> and \<open>Failed\<close>: one
    step prepares the output, handles one selected file, stops at a heading that cannot be
    encoded, or closes the output and reports.  The relation is deterministic and its one
    final state from \<open>Start\<close> is the outcome of \<open>generate_context\<close>.
  \<^item> The printed text and the exit status are in \<open>Ingest\<close> too: \<open>render_line\<close> is the
    f-string of each \<open>print\<close> (with \<open>dec\<close> of \<open>PyPath\<close> for \<open>{count}\<close>),
    \<open>stdout_text\<close> all of standard output, and \<open>script_main\<close> the \<open>__main__\<close> guard with
    its exit status.
  \<^item> \<open>Spec2Isabelle\<close> (this theory): the properties across components, each applied
    to a concrete file system (\<open>spec_scenario\<close> and the scenarios after it) that
    \<open>code_simp\<close> evaluates.

  \<^bold>\<open>The properties.\<close>  C1: \<open>generate_context\<close> writes exactly the header and
  one section per selected file in walk order, counts the successful reads and stores the
  output.  C2--C4: the selection is pruned, sound and complete.  C5: a second run
  reproduces the first (replace, not append).  C6--C7: content is copied unchanged when
  it is valid UTF-8 without CR, and CR never reaches the output.  C8--C12: the error
  paths (a failed read is logged and the run goes on; an unencodable path aborts with a
  partial output; a missing or unusable output slot is fatal).  C13--C16: what modelling
  found (dead half of the self-exclusion guard, \<open>os.path.splitext\<close> on base names and
  dotfiles, the progress lines when reads fail).  C17: the UTF-8 round trip.
  C18--C19: the loop opens exactly the files the walk lists, each once.  C20--C21: after
  a run the output file holds exactly what was written and no other file has changed.
  C22--C23: what is printed, and that the progress lines are the first three files when
  no read fails.  C24: in every outcome, the bytes written are the UTF-8 encoding of a
  text.  C25: the small-step semantics has one final state, the outcome of
  \<open>generate_context\<close>.  C26: different selected files get different headings.  C27:
  the completion summary on standard output.  C28: the exit status of the script.

  \<^bold>\<open>Bounds and termination.\<close>  Bytes are \<open>8 word\<close> and read with \<open>unat\<close>; code
  points and the counter are unbounded, as Python's \<open>int\<close>.  Every function is total
  and needs no fuel: the decoders terminate by the length of the input, the leading-dot
  loop by \<open>dotIndex - i\<close>, \<open>str.replace\<close> by the length of the text, \<open>dec\<close> by
  its argument, and the walk by the structure of the finite tree (\<open>followlinks=False\<close>
  never enters a link, so it cannot loop).

  \<^bold>\<open>Not modelled.\<close>  The text of \<open>str(e)\<close> for a caught exception, which is the
  operating system's message (the parameter \<open>msg\<close> of \<open>render_line\<close>), and the
  traceback Python writes to standard error when the script fails; failures of
  \<open>print\<close> itself: on a standard output with strict UTF-8 encoding, printing the
  \<open>Reading:\<close> line of a path with surrogate escapes raises at line 46, one line
  before the heading write the model raises at, with the same output file; write
  buffering and failures of the output disk (the output is stored at close; the walk
  never opens the output, since \<open>notebookLM\<close> is pruned); the order in which
  \<open>os.scandir\<close> lists a directory, which is the given order of the tree; changes to
  the file system by other processes during the run; a broken symbolic link, which the
  tree cannot hold apart from an unreadable file (\<open>File n None\<close>): at the output path
  \<open>os.path.exists\<close> is false for it and \<open>open(..., 'w')\<close> would follow it, where the
  model removes it; a symbolic link from inside the tree to another entry of the tree
  (a \<open>notebookLM\<close> that links to a directory is taken to point outside, and a link
  to the output file would read the output being written); \<open>os.getcwd()\<close>, a parameter
  assumed absolute and normalised; \<open>str.lower\<close> outside ASCII letters and U+212A,
  including its context-dependent rules (a final sigma): these map no extension onto one
  of the ASCII extensions and none off it, so the test of line 37 is the same, but
  \<open>py_lower\<close> is not \<open>str.lower\<close> on other text.
\<close>

definition spec_scenario :: "node list" where
  "spec_scenario =
    [Dir (ascb ''notebookLM'') [],
     Dir (ascb ''src'') [File (ascb ''app.py'') (Some (ascb ''print(1)''))],
     Dir (ascb ''node_modules'') [File (ascb ''lib.js'') (Some (ascb ''x''))],
     File (ascb ''README.md'') (Some (ascb ''# Hi'')),
     Dir (ascb ''build'') [File (ascb ''out.bin'') (Some [])]]"

definition crlf_scenario :: "node list" where
  "crlf_scenario = [Dir (ascb ''notebookLM'') [], File (ascb ''a.py'') (Some [97, 13, 10, 98])]"

definition err_scenario :: "node list" where
  "err_scenario =
    [Dir (ascb ''notebookLM'') [], File (ascb ''a.py'') None, File (ascb ''b.md'') (Some (ascb ''ok''))]"

definition bad_scenario :: "node list" where
  "bad_scenario =
    [Dir (ascb ''notebookLM'') [], File (ascb ''a.md'') (Some (ascb ''A'')),
     File [0xFF, 0x2E, 0x70, 0x79] (Some (ascb ''x''))]"

definition nodir_scenario :: "node list" where
  "nodir_scenario = [File (ascb ''README.md'') (Some (ascb ''# Hi''))]"

definition clash_scenario :: "node list" where
  "clash_scenario = [Dir (ascb ''notebookLM'') [Dir (ascb ''project_context.md'') []]]"

definition locked_scenario :: "node list" where
  "locked_scenario =
    [Dir (ascb ''notebookLM'') [], File (ascb ''a.py'') None, File (ascb ''b.py'') None,
     File (ascb ''c.py'') None, File (ascb ''d.py'') None]"

lemma spec_scenario_wf: "wf_fs spec_scenario"
  by code_simp

lemma spec_scenario_slot: "output_slot_ok spec_scenario"
  by code_simp

lemma spec_scenario_paths:
  "selected_paths (walk keep_dir [] (prepared spec_scenario)) = [[asc ''README.md''], [asc ''src'', asc ''app.py'']]"
  by code_simp

text \<open>
  C1.  Functional correctness of \<open>generate_context\<close>: on a well-formed file system whose
  \<open>notebookLM\<close> directory exists and holds no directory named
  \<open>project_context.md\<close>, and whose selected file paths are valid text, the run
  succeeds; the output file holds exactly the UTF-8 encoding of the header followed by one
  section per selected file in walk order; \<open>count\<close> is the number of selected files
  that were read; and the file system afterwards is the prepared one with the output file
  holding those bytes.
\<close>

theorem generate_context_output:
  assumes "wf_fs es" and "output_slot_ok es"
    and "\<forall>p \<in> set (selected_paths (walk keep_dir [] (prepared es))). utf8_encode (rel_path p) \<noteq> None"
  shows "\<exists>st. generate_context cwd es = Inr st \<and>
    utf8_encode (header @ sections (prepared es) (selected_paths (walk keep_dir [] (prepared es)))) =
      Some (out st) \<and>
    count st = length (filter (read_ok (prepared es)) (selected_paths (walk keep_dir [] (prepared es)))) \<and>
    fs st = close_write OUT_DIR OUT_NAME (out st) (prepared es)"
proof -
  let ?fs2 = "prepared es"
  let ?ps = "selected_paths (walk keep_dir [] ?fs2)"
  let ?st0 = "(init_st cwd ?fs2)\<lparr>out := map of_nat header\<rparr>"
  have dist: "distinct (map node_name es)" using assms(1) by simp
  have prep: "prepare_output es = Inr ?fs2" by (rule prepare_output_slot [OF dist assms(2)])
  from run_paths_ok [of ?ps ?st0] assms(3) obtain bs st' where
    r: "utf8_encode (sections ?fs2 ?ps) = Some bs" "run_paths ?ps ?st0 = Inr st'"
      "fs st' = ?fs2" "out st' = map of_nat header @ bs"
      "count st' = length (filter (read_ok ?fs2) ?ps)"
    by (auto simp: init_st_def)
  then show ?thesis
    by (simp add: generate_context_eq prep report_def close_output_def utf8_encode_append)
qed

theorem generate_context_output_witness:
  "wf_fs spec_scenario \<and> output_slot_ok spec_scenario \<and>
   (\<exists>st. generate_context (asc ''/w'') spec_scenario = Inr st \<and>
     utf8_encode (header @ sections (prepared spec_scenario)
       [[asc ''README.md''], [asc ''src'', asc ''app.py'']]) = Some (out st) \<and>
     count st = length (filter (read_ok (prepared spec_scenario))
       [[asc ''README.md''], [asc ''src'', asc ''app.py'']]) \<and>
     fs st = close_write OUT_DIR OUT_NAME (out st) (prepared spec_scenario))"
proof -
  have enc: "\<forall>p \<in> set (selected_paths (walk keep_dir [] (prepared spec_scenario))).
      utf8_encode (rel_path p) \<noteq> None"
    unfolding spec_scenario_paths by code_simp
  show ?thesis
    using generate_context_output [OF spec_scenario_wf spec_scenario_slot enc, of "asc ''/w''"]
      spec_scenario_wf spec_scenario_slot
    unfolding spec_scenario_paths by blast
qed

text \<open>
  C2.  Directory pruning and exclusion of the output (P2, P3): no component of the directory
  part of a selected path is an ignored directory name, at any depth, and the output file
  \<open>notebookLM/project_context.md\<close> is never a selected path, whatever the tree holds.
\<close>

theorem selected_paths_pruned:
  assumes "p \<in> set (selected_paths (walk keep_dir [] es))"
  shows "(\<forall>d \<in> set (butlast p). d \<notin> IGNORED_DIRS) \<and>
         p \<noteq> [asc ''notebookLM'', asc ''project_context.md'']"
proof -
  from assms obtain r fl f where w: "(r, fl) \<in> set (walk keep_dir [] es)" and p: "p = r @ [f]"
    by (auto simp: selected_paths_mem)
  from walk_kept [OF w] have k: "\<forall>d \<in> set r. keep_dir d" by auto
  have "asc ''notebookLM'' \<in> IGNORED_DIRS" by (simp add: IGNORED_DIRS_def)
  with k have "p \<noteq> [asc ''notebookLM'', asc ''project_context.md'']"
    by (auto simp: p keep_dir_def)
  with k show ?thesis by (simp add: p keep_dir_def)
qed

theorem selected_paths_pruned_witness:
  "[asc ''src'', asc ''app.py''] \<in> set (selected_paths (walk keep_dir [] spec_scenario)) \<and>
   asc ''src'' \<notin> IGNORED_DIRS \<and>
   [asc ''src'', asc ''app.py''] \<noteq> [asc ''notebookLM'', asc ''project_context.md'']"
proof -
  have m: "[asc ''src'', asc ''app.py''] \<in> set (selected_paths (walk keep_dir [] spec_scenario))"
    by code_simp
  from selected_paths_pruned [OF m] m show ?thesis by simp
qed

text \<open>
  C3.  Selection is sound (P1, P3): in a well-formed tree every selected path has an
  extension, lowercased, in \<open>INCLUDED_EXTENSIONS\<close>, is not named \<open>ingest.py\<close>, and is
  the decoded path of a file (not a directory) that exists in the tree.
\<close>

theorem selected_paths_sound:
  assumes "wf_fs es" and "p \<in> set (selected_paths (walk keep_dir [] es))"
  shows "py_lower (snd (splitext (last p))) \<in> INCLUDED_EXTENSIONS \<and> last p \<noteq> asc ''ingest.py'' \<and>
         (\<exists>ns n c. p = map fsdecode (ns @ [n]) \<and> lookup es (ns @ [n]) = Some (File n c))"
proof -
  from assms(2) obtain r fl f where w: "(r, fl) \<in> set (walk keep_dir [] es)" and f: "f \<in> set fl"
    and sel: "selected f" and p: "p = r @ [f]"
    by (auto simp: selected_paths_mem)
  from walk_sound [OF assms(1) w f] obtain ns n c where
    "r = map fsdecode ns" "f = fsdecode n" "lookup es (ns @ [n]) = Some (File n c)"
    by auto
  with sel p show ?thesis by (auto simp: selected_def)
qed

theorem selected_paths_sound_witness:
  "wf_fs spec_scenario \<and>
   [asc ''README.md''] \<in> set (selected_paths (walk keep_dir [] spec_scenario)) \<and>
   py_lower (snd (splitext (asc ''README.md''))) \<in> INCLUDED_EXTENSIONS \<and>
   (\<exists>ns n c. [asc ''README.md''] = map fsdecode (ns @ [n]) \<and>
      lookup spec_scenario (ns @ [n]) = Some (File n c))"
proof -
  have m: "[asc ''README.md''] \<in> set (selected_paths (walk keep_dir [] spec_scenario))"
    by code_simp
  from selected_paths_sound [OF spec_scenario_wf m] m spec_scenario_wf show ?thesis by simp
qed

text \<open>
  C4.  Selection is complete: every file of the tree that is reached through directories
  none of whose names is ignored, and whose name passes the extension and self-exclusion
  tests, is a selected path.
\<close>

theorem selected_paths_complete:
  assumes "lookup es (ns @ [n]) = Some (File n c)"
    and "\<forall>d \<in> set ns. fsdecode d \<notin> IGNORED_DIRS" and "selected (fsdecode n)"
  shows "map fsdecode (ns @ [n]) \<in> set (selected_paths (walk keep_dir [] es))"
proof -
  from assms(2) have "\<forall>d \<in> set ns. keep_dir (fsdecode d)" by (simp add: keep_dir_def)
  from walk_complete [OF assms(1) this, of "[]"] obtain fl where
    "(map fsdecode ns, fl) \<in> set (walk keep_dir [] es)" "fsdecode n \<in> set fl"
    by auto
  with assms(3) show ?thesis by (auto simp: selected_paths_mem)
qed

theorem selected_paths_complete_witness:
  "lookup spec_scenario [ascb ''src'', ascb ''app.py''] = Some (File (ascb ''app.py'') (Some (ascb ''print(1)''))) \<and>
   fsdecode (ascb ''src'') \<notin> IGNORED_DIRS \<and> selected (fsdecode (ascb ''app.py'')) \<and>
   map fsdecode [ascb ''src'', ascb ''app.py''] \<in> set (selected_paths (walk keep_dir [] spec_scenario))"
proof -
  have l: "lookup spec_scenario ([ascb ''src''] @ [ascb ''app.py'']) =
      Some (File (ascb ''app.py'') (Some (ascb ''print(1)'')))" by code_simp
  have d: "\<forall>d \<in> set [ascb ''src'']. fsdecode d \<notin> IGNORED_DIRS" by code_simp
  have s: "selected (fsdecode (ascb ''app.py''))" by code_simp
  from selected_paths_complete [OF l d s] l d s show ?thesis by simp
qed

text \<open>
  C5.  Replace semantics (P4): a second run on the file system a successful run leaves behind
  ends in exactly the same state: the same output bytes, count, printed lines and file
  system.  The old output is removed and recreated, never appended to.
\<close>

theorem generate_context_idempotent:
  assumes "wf_fs es" and "generate_context cwd es = Inr st"
  shows "generate_context cwd (fs st) = Inr st"
proof -
  have dist: "distinct (map node_name es)" using assms(1) by simp
  from assms(2) obtain fs2 where prep: "prepare_output es = Inr fs2"
    by (auto simp: generate_context_eq split: sum.splits)
  let ?st0 = "(init_st cwd fs2)\<lparr>out := map of_nat header\<rparr>"
  from assms(2) prep obtain st1 where
    r: "run_paths (selected_paths (walk keep_dir [] fs2)) ?st0 = Inr st1"
    and st: "st = report cwd (close_output st1)"
    by (auto simp: generate_context_eq split: sum.splits)
  have "fs st1 = fs2" using run_paths_fs(1) [OF r] by (simp add: init_st_def)
  then have fst: "fs st = close_write OUT_DIR OUT_NAME (out st1) fs2"
    by (simp add: st report_def close_output_def)
  have "prepare_output (fs st) = Inr fs2"
    using prepare_output_Inr [OF dist prep]
  proof
    assume "output_slot_ok es \<and> fs2 = prepared es"
    with prepare_close_prepared [OF dist] show ?thesis by (simp add: fst)
  next
    assume "find (\<lambda>e. node_name e = OUT_DIR) es = Some (DirLink OUT_DIR) \<and> fs2 = es"
    with close_dirlink [OF dist] prep show ?thesis by (simp add: fst)
  qed
  with r st show ?thesis by (simp add: generate_context_eq)
qed

theorem generate_context_idempotent_witness:
  "wf_fs spec_scenario \<and>
   (\<exists>st. generate_context (asc ''/w'') spec_scenario = Inr st \<and>
         generate_context (asc ''/w'') (fs st) = Inr st)"
proof -
  have "case generate_context (asc ''/w'') spec_scenario of Inr _ \<Rightarrow> True | Inl _ \<Rightarrow> False"
    by code_simp
  then obtain st where g: "generate_context (asc ''/w'') spec_scenario = Inr st"
    by (auto split: sum.splits)
  from generate_context_idempotent [OF spec_scenario_wf g] g spec_scenario_wf show ?thesis by blast
qed

text \<open>
  C6.  Content fidelity (P5), where it holds: a file whose bytes are valid UTF-8 and contain
  no carriage return is read as a text whose UTF-8 encoding, the bytes written between the
  fences, is exactly the file's bytes.
\<close>

theorem read_text_fidelity:
  assumes "read_bytes es p = Inr bs" and "utf8_decode bs \<noteq> None" and "(13 :: byte) \<notin> set bs"
  shows "\<exists>t. read_text es p = Inr t \<and> utf8_encode t = Some bs"
proof -
  from assms(2) obtain u where d: "utf8_decode bs = Some u" by auto
  have e: "utf8_encode u = Some bs" by (rule utf8_decode_encode [OF d])
  have "13 \<notin> set u"
  proof
    assume "13 \<in> set u"
    from utf8_encode_ascii_mem [OF e this] assms(3) show False by simp
  qed
  then have "translate_newlines u = u" by (rule translate_newlines_id)
  with assms(1) d e show ?thesis by (simp add: read_text_def newline_decode_eq)
qed

theorem read_text_fidelity_witness:
  "read_bytes spec_scenario [asc ''README.md''] = Inr (ascb ''# Hi'') \<and>
   utf8_decode (ascb ''# Hi'') \<noteq> None \<and> (13 :: byte) \<notin> set (ascb ''# Hi'') \<and>
   (\<exists>t. read_text spec_scenario [asc ''README.md''] = Inr t \<and> utf8_encode t = Some (ascb ''# Hi''))"
proof -
  have r: "read_bytes spec_scenario [asc ''README.md''] = Inr (ascb ''# Hi'')" by code_simp
  have d: "utf8_decode (ascb ''# Hi'') \<noteq> None" by code_simp
  have c: "(13 :: byte) \<notin> set (ascb ''# Hi'')" by code_simp
  from read_text_fidelity [OF r d c] r d c show ?thesis by blast
qed

text \<open>
  C7.  Universal newlines: the text read from any file holds no carriage return; CR LF and
  lone CR both reach the output as LF.
\<close>

theorem read_text_no_cr:
  assumes "read_text es p = Inr t"
  shows "(13 :: nat) \<notin> set t"
  using assms translate_newlines_no_cr
  by (auto simp: read_text_def newline_decode_eq split: sum.splits option.splits)

theorem read_text_no_cr_witness:
  "read_bytes crlf_scenario [asc ''a.py''] = Inr [97, 13, 10, 98] \<and>
   read_text crlf_scenario [asc ''a.py''] = Inr [97, 10, 98] \<and> (13 :: nat) \<notin> set [97, 10, 98]"
proof -
  have b: "read_bytes crlf_scenario [asc ''a.py''] = Inr [97, 13, 10, 98]" by code_simp
  have r: "read_text crlf_scenario [asc ''a.py''] = Inr [97, 10, 98]" by code_simp
  from read_text_no_cr [OF r] b r show ?thesis by simp
qed

text \<open>
  C8.  Resilience to read errors (P6): in a run that succeeds, every selected file whose
  read fails is reported by an error line naming its relative path and the exception;
  the run goes on and finishes.
\<close>

theorem generate_context_read_error_logged:
  assumes "wf_fs es" and "output_slot_ok es" and "generate_context cwd es = Inr st"
    and "p \<in> set (selected_paths (walk keep_dir [] (prepared es)))"
    and "read_text (prepared es) p = Inl e"
  shows "ReadError (rel_path p) e \<in> set (log st)"
proof -
  from assms(1-3) obtain st1 where
    r: "run_paths (selected_paths (walk keep_dir [] (prepared es)))
          ((init_st cwd (prepared es))\<lparr>out := map of_nat header\<rparr>) = Inr st1"
    and st: "st = report cwd (close_output st1)"
    by (rule generate_context_slot_Inr)
  from run_paths_read_error [OF r assms(4)] assms(5)
  have "ReadError (rel_path p) e \<in> set (log st1)" by (simp add: init_st_def)
  then show ?thesis by (simp add: st report_def close_output_def)
qed

theorem generate_context_read_error_logged_witness:
  "\<exists>st. generate_context (asc ''/w'') err_scenario = Inr st \<and>
     ReadError (rel_path [asc ''a.py'']) PermissionError \<in> set (log st)"
proof -
  have wf: "wf_fs err_scenario" by code_simp
  have slot: "output_slot_ok err_scenario" by code_simp
  have "case generate_context (asc ''/w'') err_scenario of Inr _ \<Rightarrow> True | Inl _ \<Rightarrow> False"
    by code_simp
  then obtain st where g: "generate_context (asc ''/w'') err_scenario = Inr st"
    by (auto split: sum.splits)
  have m: "[asc ''a.py''] \<in> set (selected_paths (walk keep_dir [] (prepared err_scenario)))"
    by code_simp
  have rd: "read_text (prepared err_scenario) [asc ''a.py''] = Inl PermissionError" by code_simp
  from generate_context_read_error_logged [OF wf slot g m rd] g show ?thesis by blast
qed

text \<open>
  C9.  A selected path that cannot be encoded aborts the run: when the first such path
  comes after the paths \<open>qs\<close>, \<open>generate_context\<close> raises \<open>UnicodeEncodeError\<close>,
  the output file is closed holding exactly the header and the sections of \<open>qs\<close>,
  and no final report is printed.
\<close>

theorem generate_context_crash:
  assumes "wf_fs es" and "output_slot_ok es"
    and "selected_paths (walk keep_dir [] (prepared es)) = qs @ p # rs"
    and "\<forall>q \<in> set qs. utf8_encode (rel_path q) \<noteq> None" and "utf8_encode (rel_path p) = None"
  shows "\<exists>st. generate_context cwd es = Inl (UnicodeEncodeError, st) \<and>
    utf8_encode (header @ sections (prepared es) qs) = Some (out st) \<and>
    fs st = close_write OUT_DIR OUT_NAME (out st) (prepared es)"
proof -
  let ?st0 = "(init_st cwd (prepared es))\<lparr>out := map of_nat header\<rparr>"
  have dist: "distinct (map node_name es)" using assms(1) by simp
  have prep: "prepare_output es = Inr (prepared es)" by (rule prepare_output_slot [OF dist assms(2)])
  from run_paths_crash [OF assms(4) assms(5), of ?st0 rs] obtain bs st' where
    c: "utf8_encode (sections (prepared es) qs) = Some bs"
      "run_paths (qs @ p # rs) ?st0 = Inl (UnicodeEncodeError, st')"
      "fs st' = prepared es" "out st' = map of_nat header @ bs"
    by (auto simp: init_st_def)
  then show ?thesis
    by (simp add: generate_context_eq prep assms(3) close_output_def utf8_encode_append)
qed

theorem generate_context_crash_witness:
  "\<exists>st. generate_context (asc ''/w'') bad_scenario = Inl (UnicodeEncodeError, st) \<and>
     utf8_encode (header @ sections (prepared bad_scenario) [[asc ''a.md'']]) = Some (out st) \<and>
     fs st = close_write OUT_DIR OUT_NAME (out st) (prepared bad_scenario)"
proof -
  have wf: "wf_fs bad_scenario" by code_simp
  have slot: "output_slot_ok bad_scenario" by code_simp
  have ps: "selected_paths (walk keep_dir [] (prepared bad_scenario)) =
      [[asc ''a.md'']] @ [[0xDCFF, 46, 112, 121]] # []" by code_simp
  have q: "\<forall>q \<in> set [[asc ''a.md'']]. utf8_encode (rel_path q) \<noteq> None" by code_simp
  have p: "utf8_encode (rel_path [[0xDCFF, 46, 112, 121]]) = None" by code_simp
  from generate_context_crash [OF wf slot ps q p, of "asc ''/w''"] show ?thesis .
qed

theorem rel_path_encode_None_witness:
  "utf8_encode (rel_path (map fsdecode [ascb ''d'', [0xFF, 0x2E, 0x70, 0x79]])) = None"
proof -
  have "\<exists>n \<in> set [ascb ''d'', [0xFF, 0x2E, 0x70, 0x79]]. utf8_decode n = None" by code_simp
  then show ?thesis by (simp only: rel_path_encode_None)
qed

text \<open>
  C11.  A missing \<open>notebookLM\<close> directory is fatal: \<open>open(OUTPUT_FILE, 'w')\<close> raises
  \<open>FileNotFoundError\<close> before anything is written or read, and only the starting line
  has been printed.
\<close>

theorem generate_context_no_output_dir:
  assumes "lookup es [OUT_DIR] = None"
  shows "generate_context cwd es = Inl (FileNotFoundError, init_st cwd es)"
  using assms
  by (simp add: generate_context_eq prepare_output_def open_write_def lookup_two)

theorem generate_context_no_output_dir_witness:
  "lookup nodir_scenario [OUT_DIR] = None \<and>
   generate_context (asc ''/w'') nodir_scenario = Inl (FileNotFoundError, init_st (asc ''/w'') nodir_scenario)"
proof -
  have l: "lookup nodir_scenario [OUT_DIR] = None" by code_simp
  from generate_context_no_output_dir [OF l] l show ?thesis by simp
qed

text \<open>
  C12.  Every other failure to prepare the output slot is fatal too: unless
  \<open>notebookLM\<close> is a link to a directory, a file system whose output slot is not usable
  makes \<open>generate_context\<close> raise before the header is written, with count 0 and only
  the starting line printed.
\<close>

theorem generate_context_prepare_error:
  assumes "wf_fs es" and "\<not> output_slot_ok es"
    and "find (\<lambda>e. node_name e = OUT_DIR) es \<noteq> Some (DirLink OUT_DIR)"
  shows "\<exists>e fs1. generate_context cwd es = Inl (e, init_st cwd fs1)"
proof (cases "prepare_output es")
  case (Inl r)
  then show ?thesis by (cases r) (auto simp: generate_context_eq)
next
  case (Inr fs2)
  have "distinct (map node_name es)" using assms(1) by simp
  from prepare_output_Inr [OF this Inr] assms(2,3) show ?thesis by simp
qed

theorem generate_context_prepare_error_witness:
  "\<exists>e fs1. generate_context (asc ''/w'') clash_scenario = Inl (e, init_st (asc ''/w'') fs1)"
proof -
  have wf: "wf_fs clash_scenario" by code_simp
  have ns: "\<not> output_slot_ok clash_scenario" by code_simp
  have nl: "find (\<lambda>e. node_name e = OUT_DIR) clash_scenario \<noteq> Some (DirLink OUT_DIR)" by code_simp
  from generate_context_prepare_error [OF wf ns nl] show ?thesis .
qed

text \<open>
  C13.  The self-exclusion guard \<open>file in ["ingest.py", OUTPUT_FILE]\<close> compares a base
  name with a path: no name the walk can return equals \<open>OUTPUT_FILE\<close>, so only the
  \<open>ingest.py\<close> test ever applies, and a file called \<open>project_context.md\<close> is selected.
\<close>

theorem selected_walk_name:
  assumes "valid_name n"
  shows "selected (fsdecode n) \<longleftrightarrow>
    py_lower (snd (splitext (fsdecode n))) \<in> INCLUDED_EXTENSIONS \<and> fsdecode n \<noteq> asc ''ingest.py''"
proof -
  have o: "(47 :: nat) \<in> set OUTPUT_FILE" by (simp add: OUTPUT_FILE_def asc_def)
  have nn: "(47 :: byte) \<notin> set n" using assms by (simp add: valid_name_def)
  have "fsdecode n \<noteq> OUTPUT_FILE"
  proof
    assume "fsdecode n = OUTPUT_FILE"
    with o have "(47 :: nat) \<in> set (fsdecode n)" by simp
    from fsdecode_ascii_mem [OF this] have "(of_nat 47 :: byte) \<in> set n" by simp
    with nn show False by simp
  qed
  then show ?thesis by (auto simp: selected_def)
qed

theorem selected_walk_name_witness:
  "valid_name (ascb ''project_context.md'') \<and> selected (fsdecode (ascb ''project_context.md''))"
proof -
  have v: "valid_name (ascb ''project_context.md'')" by code_simp
  have "py_lower (snd (splitext (fsdecode (ascb ''project_context.md'')))) \<in> INCLUDED_EXTENSIONS \<and>
      fsdecode (ascb ''project_context.md'') \<noteq> asc ''ingest.py''" by code_simp
  with selected_walk_name [OF v] v show ?thesis by simp
qed

theorem splitext_basename_witness:
  "snd (splitext (asc ''a.tar.gz'')) = ext_ref (asc ''a.tar.gz'') \<and> ext_ref (asc ''a.tar.gz'') = asc ''.gz''"
proof -
  have s: "slash \<notin> set (asc ''a.tar.gz'')" by code_simp
  have e: "ext_ref (asc ''a.tar.gz'') = asc ''.gz''" by code_simp
  from splitext_basename [OF s] e show ?thesis by simp
qed

text \<open>
  C15.  A name made of leading dots and no other dot, such as \<open>.md\<close> or \<open>..py\<close>, has
  no extension for \<open>os.path.splitext\<close> and is never selected.
\<close>

theorem dotfile_not_selected:
  assumes "dot \<notin> set s"
  shows "\<not> selected (replicate (Suc k) dot @ s)"
proof -
  have "snd (splitext (replicate (Suc k) dot @ s)) = []" by (rule splitext_leading_dots [OF assms])
  then show ?thesis by (simp add: selected_def py_lower_def INCLUDED_EXTENSIONS_def asc_def)
qed

theorem dotfile_not_selected_witness:
  "replicate 1 dot @ asc ''md'' = asc ''.md'' \<and> \<not> selected (replicate 1 dot @ asc ''md'')"
proof -
  have d: "dot \<notin> set (asc ''md'')" by code_simp
  have e: "replicate 1 dot @ asc ''md'' = asc ''.md''" by code_simp
  from dotfile_not_selected [OF d, of 0] e show ?thesis by simp
qed

text \<open>
  C16.  The "first 3 files" progress lines are guarded by the success count: when every
  selected file fails to read, the count stays 0 and a \<open>Reading:\<close> line is printed for
  every selected file, however many there are.
\<close>

theorem reading_lines_all_fail:
  assumes "wf_fs es" and "output_slot_ok es"
    and "\<forall>p \<in> set (selected_paths (walk keep_dir [] (prepared es))).
           utf8_encode (rel_path p) \<noteq> None \<and> \<not> read_ok (prepared es) p"
    and "generate_context cwd es = Inr st"
  shows "count st = 0 \<and> reading_lines (log st) = map rel_path (selected_paths (walk keep_dir [] (prepared es)))"
proof -
  from assms(1,2,4) obtain st1 where
    r: "run_paths (selected_paths (walk keep_dir [] (prepared es)))
          ((init_st cwd (prepared es))\<lparr>out := map of_nat header\<rparr>) = Inr st1"
    and st: "st = report cwd (close_output st1)"
    by (rule generate_context_slot_Inr)
  from run_paths_all_fail [OF _ _ r] assms(3)
  have "count st1 = 0 \<and> reading_lines (log st1) = map rel_path (selected_paths (walk keep_dir [] (prepared es)))"
    by (simp add: init_st_def)
  then show ?thesis by (simp add: st report_def close_output_def)
qed

theorem reading_lines_all_fail_witness:
  "\<exists>st. generate_context (asc ''/w'') locked_scenario = Inr st \<and> count st = 0 \<and>
     reading_lines (log st) = [asc ''a.py'', asc ''b.py'', asc ''c.py'', asc ''d.py'']"
proof -
  have wf: "wf_fs locked_scenario" by code_simp
  have slot: "output_slot_ok locked_scenario" by code_simp
  have ps: "selected_paths (walk keep_dir [] (prepared locked_scenario)) =
      [[asc ''a.py''], [asc ''b.py''], [asc ''c.py''], [asc ''d.py'']]" by code_simp
  have h: "\<forall>p \<in> set (selected_paths (walk keep_dir [] (prepared locked_scenario))).
      utf8_encode (rel_path p) \<noteq> None \<and> \<not> read_ok (prepared locked_scenario) p"
    unfolding ps by code_simp
  have "case generate_context (asc ''/w'') locked_scenario of Inr _ \<Rightarrow> True | Inl _ \<Rightarrow> False"
    by code_simp
  then obtain st where g: "generate_context (asc ''/w'') locked_scenario = Inr st"
    by (auto split: sum.splits)
  from reading_lines_all_fail [OF wf slot h g] g show ?thesis by (simp add: ps)
qed

theorem utf8_encode_decode_witness:
  "utf8_encode [0x1F600] = Some [0xF0, 0x9F, 0x98, 0x80] \<and> utf8_decode [0xF0, 0x9F, 0x98, 0x80] = Some [0x1F600]"
proof -
  have e: "utf8_encode [0x1F600] = Some [0xF0, 0x9F, 0x98, 0x80]" by code_simp
  from utf8_encode_decode [OF e] e show ?thesis by simp
qed

text \<open>
  C18.  The loop reads the very file the walk listed: in a well-formed tree every selected
  path is the decoded path of a file, and opening it returns that file's bytes, or
  \<open>PermissionError\<close> when it cannot be opened; \<open>os.fsencode\<close> gives back the raw
  names, so non-UTF-8 names are found too.
\<close>

theorem selected_path_reads_file:
  assumes "wf_fs es" and "p \<in> set (selected_paths (walk keep_dir [] es))"
  shows "\<exists>ns n c. p = map fsdecode (ns @ [n]) \<and> lookup es (ns @ [n]) = Some (File n c) \<and>
    read_bytes es p = (case c of Some bs \<Rightarrow> Inr bs | None \<Rightarrow> Inl PermissionError)"
proof -
  from assms(2) obtain r fl f where w: "(r, fl) \<in> set (walk keep_dir [] es)" and f: "f \<in> set fl"
    and p: "p = r @ [f]"
    by (auto simp: selected_paths_mem)
  from walk_sound [OF assms(1) w f] obtain ns n c where
    "p = map fsdecode (ns @ [n])" "lookup es (ns @ [n]) = Some (File n c)"
    by (auto simp: p)
  with read_bytes_fsdecode show ?thesis by blast
qed

theorem selected_path_reads_file_witness:
  "\<exists>ns n c. [asc ''src'', asc ''app.py''] = map fsdecode (ns @ [n]) \<and>
     lookup spec_scenario (ns @ [n]) = Some (File n c) \<and>
     read_bytes spec_scenario [asc ''src'', asc ''app.py''] =
       (case c of Some bs \<Rightarrow> Inr bs | None \<Rightarrow> Inl PermissionError)"
proof -
  have m: "[asc ''src'', asc ''app.py''] \<in> set (selected_paths (walk keep_dir [] spec_scenario))"
    by code_simp
  from selected_path_reads_file [OF spec_scenario_wf m] show ?thesis .
qed

text \<open>
  C19.  No file is copied twice: \<open>os.walk\<close> yields each directory once and each name once
  in it, so the list of selected paths has no repetition.
\<close>

theorem selected_paths_distinct:
  assumes "wf_fs es"
  shows "distinct (selected_paths (walk keep_dir [] es))"
  using walk_distinct [OF assms] walk_files_distinct [OF assms]
  by (rule selected_paths_distinct_gen)

theorem selected_paths_distinct_witness:
  "distinct (selected_paths (walk keep_dir [] spec_scenario))"
  by (rule selected_paths_distinct [OF spec_scenario_wf])

text \<open>
  C20.  After a successful run the output file holds exactly the bytes written through
  \<open>outfile\<close>: nothing of its previous content survives.
\<close>

theorem generate_context_output_file:
  assumes "wf_fs es" and "output_slot_ok es" and "generate_context cwd es = Inr st"
  shows "lookup (fs st) [OUT_DIR, OUT_NAME] = Some (File OUT_NAME (Some (out st)))"
proof -
  from assms obtain st1 where "st = report cwd (close_output st1)" and "fs st1 = prepared es"
    by (rule generate_context_slot_Inr)
  with lookup_close_prepared_out [OF assms(2), of "out st1"] show ?thesis
    by (simp add: report_def close_output_def)
qed

text \<open>
  C21.  The run touches no file but the output: every file of the tree at another path is
  found after a successful run with its content unchanged.
\<close>

theorem generate_context_frame:
  assumes "wf_fs es" and "output_slot_ok es" and "generate_context cwd es = Inr st"
    and "lookup es p = Some (File n c)" and "p \<noteq> [OUT_DIR, OUT_NAME]"
  shows "lookup (fs st) p = Some (File n c)"
proof -
  from assms(1-3) obtain st1 where "st = report cwd (close_output st1)" and "fs st1 = prepared es"
    by (rule generate_context_slot_Inr)
  with assms(2,4,5) show ?thesis
    by (simp add: report_def close_output_def lookup_close_prepared_frame)
qed

lemma spec_scenario_success: "\<exists>st. generate_context (asc ''/w'') spec_scenario = Inr st"
proof -
  have "case generate_context (asc ''/w'') spec_scenario of Inr _ \<Rightarrow> True | Inl _ \<Rightarrow> False"
    by code_simp
  then show ?thesis by (auto split: sum.splits)
qed

theorem generate_context_output_file_witness:
  "\<exists>st. generate_context (asc ''/w'') spec_scenario = Inr st \<and>
     lookup (fs st) [OUT_DIR, OUT_NAME] = Some (File OUT_NAME (Some (out st)))"
proof -
  from spec_scenario_success obtain st where g: "generate_context (asc ''/w'') spec_scenario = Inr st" ..
  from generate_context_output_file [OF spec_scenario_wf spec_scenario_slot g] g show ?thesis by blast
qed

theorem generate_context_frame_witness:
  "\<exists>st. generate_context (asc ''/w'') spec_scenario = Inr st \<and>
     lookup (fs st) [ascb ''README.md''] = Some (File (ascb ''README.md'') (Some (ascb ''# Hi'')))"
proof -
  from spec_scenario_success obtain st where g: "generate_context (asc ''/w'') spec_scenario = Inr st" ..
  have l: "lookup spec_scenario [ascb ''README.md''] = Some (File (ascb ''README.md'') (Some (ascb ''# Hi'')))"
    by code_simp
  have p: "[ascb ''README.md''] \<noteq> [OUT_DIR, OUT_NAME]" by simp
  from generate_context_frame [OF spec_scenario_wf spec_scenario_slot g l p] g show ?thesis by blast
qed

text \<open>
  C22.  What a successful run prints: the starting line, then only progress and error
  lines for files, then the count and the absolute path of the output, in that order.
\<close>

theorem generate_context_log_shape:
  assumes "generate_context cwd es = Inr st"
  shows "\<exists>l. log st = Starting cwd # l @ [Finished (count st), SavedTo (abspath cwd OUTPUT_FILE)] \<and>
    list_all is_file_line l"
proof -
  from assms obtain fs2 st1 where
    r: "run_paths (selected_paths (walk keep_dir [] fs2)) ((init_st cwd fs2)\<lparr>out := map of_nat header\<rparr>) = Inr st1"
    and st: "st = report cwd (close_output st1)"
    by (rule generate_context_Inr)
  from run_paths_log_mono [OF r] obtain l where "log st1 = Starting cwd # l" "list_all is_file_line l"
    by (auto simp: init_st_def)
  then show ?thesis by (simp add: st report_def close_output_def)
qed

theorem generate_context_log_shape_witness:
  "\<exists>st l. generate_context (asc ''/w'') spec_scenario = Inr st \<and>
     log st = Starting (asc ''/w'') # l @ [Finished (count st), SavedTo (abspath (asc ''/w'') OUTPUT_FILE)] \<and>
     list_all is_file_line l"
proof -
  from spec_scenario_success obtain st where g: "generate_context (asc ''/w'') spec_scenario = Inr st" ..
  from generate_context_log_shape [OF g] g show ?thesis by blast
qed

text \<open>
  C23.  When every selected file is read successfully the progress lines are what the
  comment promises: one \<open>Reading:\<close> line for each of the first three files, and the
  count is the number of selected files.
\<close>

theorem reading_lines_all_ok:
  assumes "wf_fs es" and "output_slot_ok es"
    and "\<forall>p \<in> set (selected_paths (walk keep_dir [] (prepared es))).
           utf8_encode (rel_path p) \<noteq> None \<and> read_ok (prepared es) p"
    and "generate_context cwd es = Inr st"
  shows "count st = length (selected_paths (walk keep_dir [] (prepared es))) \<and>
    reading_lines (log st) = take 3 (map rel_path (selected_paths (walk keep_dir [] (prepared es))))"
proof -
  from assms(1,2,4) obtain st1 where
    r: "run_paths (selected_paths (walk keep_dir [] (prepared es)))
          ((init_st cwd (prepared es))\<lparr>out := map of_nat header\<rparr>) = Inr st1"
    and st: "st = report cwd (close_output st1)"
    by (rule generate_context_slot_Inr)
  from run_paths_all_ok [OF _ r] assms(3)
  have "count st1 = length (selected_paths (walk keep_dir [] (prepared es))) \<and>
      reading_lines (log st1) = take 3 (map rel_path (selected_paths (walk keep_dir [] (prepared es))))"
    by (simp add: init_st_def)
  then show ?thesis by (simp add: st report_def close_output_def)
qed

theorem reading_lines_all_ok_witness:
  "\<exists>st. generate_context (asc ''/w'') spec_scenario = Inr st \<and> count st = 2 \<and>
     reading_lines (log st) = map rel_path [[asc ''README.md''], [asc ''src'', asc ''app.py'']]"
proof -
  from spec_scenario_success obtain st where g: "generate_context (asc ''/w'') spec_scenario = Inr st" ..
  have h: "\<forall>p \<in> set (selected_paths (walk keep_dir [] (prepared spec_scenario))).
      utf8_encode (rel_path p) \<noteq> None \<and> read_ok (prepared spec_scenario) p"
    unfolding spec_scenario_paths by code_simp
  from reading_lines_all_ok [OF spec_scenario_wf spec_scenario_slot h g] g show ?thesis
    by (simp add: spec_scenario_paths)
qed

text \<open>
  C24.  Whatever happens, the bytes written to the output file are the UTF-8 encoding of a
  text: after a successful run, after the crash of C9, and after a failure to prepare the
  output (nothing written).
\<close>

theorem generate_context_output_text:
  "\<exists>t. utf8_encode t = Some (out (res_st (generate_context cwd es)))"
proof (cases "prepare_output es")
  case (Inl r)
  then have "out (res_st (generate_context cwd es)) = []"
    by (cases r) (simp add: generate_context_eq res_st_def init_st_def)
  then show ?thesis by (metis utf8_encode.simps(1))
next
  case (Inr fs2)
  let ?st0 = "(init_st cwd fs2)\<lparr>out := map of_nat header\<rparr>"
  let ?ps = "selected_paths (walk keep_dir [] fs2)"
  have "utf8_encode header = Some (out ?st0)" by (simp add: init_st_def)
  then have "\<exists>t. utf8_encode t = Some (out ?st0)" ..
  from run_paths_out_text [OF this, of ?ps]
  have "\<exists>t. utf8_encode t = Some (out (res_st (run_paths ?ps ?st0)))" .
  moreover have "out (res_st (generate_context cwd es)) = out (res_st (run_paths ?ps ?st0))"
    using Inr by (simp add: generate_context_eq res_st_def close_output_def report_def
        split: sum.split prod.split)
  ultimately show ?thesis by simp
qed

text \<open>
  C26.  Each heading names exactly one file: two different selected paths get different
  \<open>## FILE:\<close> lines, since the names the walk returns contain no \<open>'/'\<close> and
  \<open>str.split('/')\<close> recovers the components of the relative path.
\<close>

theorem selected_heading_unique:
  assumes "wf_fs es" and "p \<in> set (selected_paths (walk keep_dir [] es))"
    and "q \<in> set (selected_paths (walk keep_dir [] es))" and "p \<noteq> q"
  shows "rel_path p \<noteq> rel_path q"
proof
  assume eq: "rel_path p = rel_path q"
  from selected_path_components [OF assms(1,2)] have "p = split_path (rel_path p)"
    by (simp add: split_rel_path)
  also have "\<dots> = split_path (rel_path q)" by (simp only: eq)
  also from selected_path_components [OF assms(1,3)] have "\<dots> = q"
    by (simp add: split_rel_path)
  finally show False using assms(4) by simp
qed

theorem selected_heading_unique_witness:
  "[asc ''README.md''] \<noteq> [asc ''src'', asc ''app.py''] \<and>
   rel_path [asc ''README.md''] \<noteq> rel_path [asc ''src'', asc ''app.py'']"
proof -
  have m1: "[asc ''README.md''] \<in> set (selected_paths (walk keep_dir [] spec_scenario))"
    by code_simp
  have m2: "[asc ''src'', asc ''app.py''] \<in> set (selected_paths (walk keep_dir [] spec_scenario))"
    by code_simp
  have d: "[asc ''README.md''] \<noteq> [asc ''src'', asc ''app.py'']" by code_simp
  from selected_heading_unique [OF spec_scenario_wf m1 m2 d] d show ?thesis by (rule conjI [rotated])
qed

text \<open>
  C27.  The completion summary: after a successful run the last two lines on standard
  output are \<open>Finished! Scanned\<close> with the count in decimal and \<open>Saved to:\<close> with the
  absolute path of the output file.
\<close>

theorem stdout_summary:
  assumes "generate_context cwd es = Inr st"
  shows "\<exists>pre. stdout_text msg (log st) = pre @
    [0x2705] @ asc '' Finished! Scanned '' @ dec (count st) @ asc '' files.'' @ [10] @
    [0x1F4C4] @ asc '' Saved to: '' @ abspath cwd OUTPUT_FILE @ [10]"
proof -
  from assms obtain st1 where "st = report cwd (close_output st1)"
    by (auto elim: generate_context_Inr)
  then show ?thesis
    by (simp add: report_def close_output_def stdout_text_def render_line_def)
qed

theorem stdout_summary_witness:
  "\<exists>st pre. generate_context (asc ''/w'') spec_scenario = Inr st \<and>
     stdout_text (\<lambda>_ _. []) (log st) = pre @
       [0x2705] @ asc '' Finished! Scanned '' @ dec (count st) @ asc '' files.'' @ [10] @
       [0x1F4C4] @ asc '' Saved to: '' @ abspath (asc ''/w'') OUTPUT_FILE @ [10]"
proof -
  from spec_scenario_success obtain st where g: "generate_context (asc ''/w'') spec_scenario = Inr st" ..
  from stdout_summary [OF g, of "\<lambda>_ _. []"] g show ?thesis by blast
qed

text \<open>
  C28.  Exit status (the \<open>__main__\<close> guard, lines 61--62): on a file system with a usable
  output slot, the script exits with status 0 exactly when every selected path can be
  written as a heading; otherwise the \<open>UnicodeEncodeError\<close> of C9 ends it with status 1.
\<close>

theorem script_main_status:
  assumes "wf_fs es" and "output_slot_ok es"
  shows "fst (script_main cwd es) = 0 \<longleftrightarrow>
    (\<forall>p \<in> set (selected_paths (walk keep_dir [] (prepared es))). utf8_encode (rel_path p) \<noteq> None)"
proof -
  let ?ps = "selected_paths (walk keep_dir [] (prepared es))"
  let ?st0 = "(init_st cwd (prepared es))\<lparr>out := map of_nat header\<rparr>"
  have "distinct (map node_name es)" using assms(1) by simp
  then have prep: "prepare_output es = Inr (prepared es)" by (rule prepare_output_slot [OF _ assms(2)])
  have "fst (script_main cwd es) = 0 \<longleftrightarrow> (\<exists>st'. run_paths ?ps ?st0 = Inr st')"
    by (auto simp: script_main_def generate_context_eq prep split: sum.split prod.split)
  also have "\<dots> \<longleftrightarrow> (\<forall>p \<in> set ?ps. utf8_encode (rel_path p) \<noteq> None)"
  proof
    assume "\<exists>st'. run_paths ?ps ?st0 = Inr st'"
    then show "\<forall>p \<in> set ?ps. utf8_encode (rel_path p) \<noteq> None"
      using run_paths_error [of ?ps ?st0] by force
  next
    assume "\<forall>p \<in> set ?ps. utf8_encode (rel_path p) \<noteq> None"
    from run_paths_ok [OF this, of ?st0] show "\<exists>st'. run_paths ?ps ?st0 = Inr st'" by blast
  qed
  finally show ?thesis .
qed

theorem script_main_status_witness:
  "fst (script_main (asc ''/w'') spec_scenario) = 0 \<and> fst (script_main (asc ''/w'') bad_scenario) = 1"
proof -
  have bwf: "wf_fs bad_scenario" by code_simp
  have bslot: "output_slot_ok bad_scenario" by code_simp
  have ok: "\<forall>p \<in> set (selected_paths (walk keep_dir [] (prepared spec_scenario))). utf8_encode (rel_path p) \<noteq> None"
    unfolding spec_scenario_paths by code_simp
  have bad: "\<not> (\<forall>p \<in> set (selected_paths (walk keep_dir [] (prepared bad_scenario))). utf8_encode (rel_path p) \<noteq> None)"
    by code_simp
  have s1: "fst (script_main (asc ''/w'') bad_scenario) \<in> {0, 1}"
    by (auto simp: script_main_def split: sum.split prod.split)
  from script_main_status [OF spec_scenario_wf spec_scenario_slot] ok
    script_main_status [OF bwf bslot] bad s1 show ?thesis by auto
qed

end
